theory Spec2Isabelle
  imports Complex_Main "HOL-Library.Sublist" "HOL-Library.Multiset" "HOL-Library.Monad_Syntax"
begin

section \<open>JavaScript values\<close>

text \<open>
  The repository is TypeScript. A \<open>number\<close> is modelled as the \<open>real\<close> it denotes, a clock
  reading \<open>Date.now()\<close> as an \<open>int\<close> of milliseconds, an optional property as an
  \<open>option\<close>. Millisecond counts and request counts are small integers, on which the
  arithmetic of IEEE doubles is exact; the proxy scores are computed with the literals
  \<open>0.9\<close> and \<open>0.1\<close> and are rounded as doubles (section on IEEE doubles below). A division
  keeps the three non-finite results of JavaScript.
\<close>

datatype js_number = Finite real | PosInfinity | NegInfinity | NaN

definition js_div :: "real \<Rightarrow> real \<Rightarrow> js_number" where
  "js_div a b =
     (if b \<noteq> 0 then Finite (a / b)
      else if 0 < a then PosInfinity
      else if a < 0 then NegInfinity
      else NaN)"

text \<open>\<open>v || d\<close> on an optional number: \<open>undefined\<close> and \<open>0\<close> are both falsy.\<close>

definition or_default :: "real option \<Rightarrow> real \<Rightarrow> real" where
  "or_default v d = (case v of None \<Rightarrow> d | Some x \<Rightarrow> if x = 0 then d else x)"

text \<open>The decimal text of a clock reading, as a template literal prints it.\<close>

definition digit_char :: "nat \<Rightarrow> char" where
  "digit_char d = ''0123456789'' ! d"

fun digits :: "nat \<Rightarrow> string" where
  "digits n = (if n < 10 then [digit_char n] else digits (n div 10) @ [digit_char (n mod 10)])"

declare digits.simps [simp del]

definition show_int :: "int \<Rightarrow> string" where
  "show_int i = (if i < 0 then CHR ''-'' # digits (nat (- i)) else digits (nat i))"

text \<open>
  A \<open>Set<string>\<close> keeps its members in insertion order and holds each once: a list
  without repetition, \<open>add\<close> appending a member that is new, \<open>delete\<close> removing it.
\<close>

definition set_add :: "'a \<Rightarrow> 'a list \<Rightarrow> 'a list" where
  "set_add x xs = (if x \<in> set xs then xs else xs @ [x])"

definition set_delete :: "'a \<Rightarrow> 'a list \<Rightarrow> 'a list" where
  "set_delete x xs = removeAll x xs"


section \<open>Rate limiter (src/core/rate-limiter.ts)\<close>

record RateLimitConfig =
  maxRequestsPerSecond :: real
  maxRequestsPerMinute :: real
  maxRequestsPerHour :: real
  maxConcurrent :: real
  backoffMultiplier :: real
  backoffMax :: real

text \<open>\<open>Partial<RateLimitConfig>\<close>: every property may be absent.\<close>

record PartialRateLimitConfig =
  optRequestsPerSecond :: "real option"
  optRequestsPerMinute :: "real option"
  optRequestsPerHour :: "real option"
  optConcurrent :: "real option"
  optBackoffMultiplier :: "real option"
  optBackoffMax :: "real option"

record RequestTimestamp =
  timestamp :: int
  url :: string

record RateLimiter =
  config :: RateLimitConfig
  requests :: "RequestTimestamp list"
  concurrentRequests :: "string list"
  backoffTime :: real
  lastBackoff :: int

definition RateLimiter_new :: "PartialRateLimitConfig \<Rightarrow> RateLimiter" where
  "RateLimiter_new c =
     \<lparr> config =
         \<lparr> maxRequestsPerSecond = or_default (optRequestsPerSecond c) 2,
           maxRequestsPerMinute = or_default (optRequestsPerMinute c) 60,
           maxRequestsPerHour = or_default (optRequestsPerHour c) 1000,
           maxConcurrent = or_default (optConcurrent c) 5,
           backoffMultiplier = or_default (optBackoffMultiplier c) 2,
           backoffMax = or_default (optBackoffMax c) 60000 \<rparr>,
       requests = [],
       concurrentRequests = [],
       backoffTime = 0,
       lastBackoff = 0 \<rparr>"

text \<open>Every method that reads \<open>Date.now()\<close> takes the reading as its argument \<open>now\<close>.\<close>

definition cleanOldRequests :: "int \<Rightarrow> RateLimiter \<Rightarrow> RateLimiter" where
  "cleanOldRequests now s =
     (let oneHourAgo = now - 3600000
      in s\<lparr> requests := filter (\<lambda>r. timestamp r > oneHourAgo) (requests s) \<rparr>)"

definition isInBackoff :: "int \<Rightarrow> RateLimiter \<Rightarrow> bool" where
  "isInBackoff now s =
     (if backoffTime s = 0 then False
      else (let elapsed = now - lastBackoff s in real_of_int elapsed < backoffTime s))"

definition getBackoffRemaining :: "int \<Rightarrow> RateLimiter \<Rightarrow> real" where
  "getBackoffRemaining now s =
     (if \<not> isInBackoff now s then 0
      else (let elapsed = now - lastBackoff s in max 0 (backoffTime s - real_of_int elapsed)))"

definition lastSecond :: "int \<Rightarrow> RateLimiter \<Rightarrow> nat" where
  "lastSecond now s = length (filter (\<lambda>r. now - timestamp r < 1000) (requests s))"

definition lastMinute :: "int \<Rightarrow> RateLimiter \<Rightarrow> nat" where
  "lastMinute now s = length (filter (\<lambda>r. now - timestamp r < 60000) (requests s))"

definition lastHour :: "int \<Rightarrow> RateLimiter \<Rightarrow> nat" where
  "lastHour now s = length (filter (\<lambda>r. now - timestamp r < 3600000) (requests s))"

text \<open>The result \<open>{canProceed, waitTime?}\<close> is a pair.\<close>

definition checkLimits :: "int \<Rightarrow> RateLimiter \<Rightarrow> bool \<times> real option" where
  "checkLimits now s =
     (if real (lastSecond now s) \<ge> maxRequestsPerSecond (config s) then (False, Some 1000)
      else if real (lastMinute now s) \<ge> maxRequestsPerMinute (config s) then (False, Some 5000)
      else if real (lastHour now s) \<ge> maxRequestsPerHour (config s) then (False, Some 60000)
      else (True, None))"

text \<open>
  One pass through the body of the \<open>while (true)\<close> loop of \<open>waitForSlot\<close>. The pass
  has no \<open>await\<close> before it either returns or sleeps, so it runs without interleaving and
  reads one clock value \<open>now\<close>. It ends admitted (the method returns) or asleep for some
  milliseconds (the loop continues).
\<close>

datatype slot_step = Admitted RateLimiter | Sleeping real RateLimiter

definition waitForSlot_iter :: "string \<Rightarrow> string \<Rightarrow> int \<Rightarrow> RateLimiter \<Rightarrow> slot_step" where
  "waitForSlot_iter requestId u now s0 =
     (let s = cleanOldRequests now s0
      in if isInBackoff now s then Sleeping (getBackoffRemaining now s) s
         else if real (length (concurrentRequests s)) \<ge> maxConcurrent (config s)
           then Sleeping 100 s
         else (case checkLimits now s of
                 (True, w) \<Rightarrow>
                   Admitted (s\<lparr> requests := requests s @ [\<lparr> timestamp = now, url = u \<rparr>],
                                concurrentRequests := set_add requestId (concurrentRequests s) \<rparr>)
               | (False, w) \<Rightarrow> Sleeping (or_default w 1000) s))"

text \<open>
  The loop. While the caller sleeps, the clock advances and other callers run: the schedule
  gives, for each pass, the clock value it reads and what the rest of the program does to
  the limiter during the sleep that follows. \<open>None\<close>: still waiting when the schedule ends.
\<close>

fun waitForSlot_loop ::
  "string \<Rightarrow> string \<Rightarrow> (int \<times> (RateLimiter \<Rightarrow> RateLimiter)) list \<Rightarrow> RateLimiter
     \<Rightarrow> RateLimiter option" where
  "waitForSlot_loop requestId u [] s = None"
| "waitForSlot_loop requestId u ((now, others) # sched) s =
     (case waitForSlot_iter requestId u now s of
        Admitted s' \<Rightarrow> Some s'
      | Sleeping ms s' \<Rightarrow> waitForSlot_loop requestId u sched (others s'))"

text \<open>\<open>waitForSlot(url)\<close> entered at clock value \<open>t0\<close>, which names the slot.\<close>

definition requestId_of :: "string \<Rightarrow> int \<Rightarrow> string" where
  "requestId_of u t0 = u @ ''-'' @ show_int t0"

definition waitForSlot ::
  "string \<Rightarrow> int \<Rightarrow> (int \<times> (RateLimiter \<Rightarrow> RateLimiter)) list \<Rightarrow> RateLimiter
     \<Rightarrow> RateLimiter option" where
  "waitForSlot u t0 sched s = waitForSlot_loop (requestId_of u t0) u sched s"

text \<open>
  \<open>releaseSlot(url)\<close>: the first member, in insertion order, that starts with \<open>url\<close>;
  \<open>if (requestId)\<close> also skips a member that is the empty string.
\<close>

definition releaseSlot :: "string \<Rightarrow> RateLimiter \<Rightarrow> RateLimiter" where
  "releaseSlot u s =
     (case find (\<lambda>i. prefix u i) (concurrentRequests s) of
        None \<Rightarrow> s
      | Some requestId \<Rightarrow>
          if requestId = [] then s
          else s\<lparr> concurrentRequests := set_delete requestId (concurrentRequests s) \<rparr>)"

definition triggerBackoff :: "int \<Rightarrow> RateLimiter \<Rightarrow> RateLimiter" where
  "triggerBackoff now s =
     s\<lparr> backoffTime :=
          (if backoffTime s = 0 then 1000
           else min (backoffTime s * backoffMultiplier (config s)) (backoffMax (config s))),
        lastBackoff := now \<rparr>"

definition resetBackoff :: "RateLimiter \<Rightarrow> RateLimiter" where
  "resetBackoff s = s\<lparr> backoffTime := 0, lastBackoff := 0 \<rparr>"

definition reset :: "RateLimiter \<Rightarrow> RateLimiter" where
  "reset s = resetBackoff (s\<lparr> requests := [], concurrentRequests := [] \<rparr>)"

text \<open>
  The delay update as the specification words it:
  \<open>delay \<leftarrow> min(max(delay * multiplier, initial), maxDelay)\<close>, the initial delay being the
  source's 1000 ms.
\<close>

definition spec_next_delay :: "RateLimitConfig \<Rightarrow> real \<Rightarrow> real" where
  "spec_next_delay c delay = min (max (delay * backoffMultiplier c) 1000) (backoffMax c)"

text \<open>The backoff delay is unset, or between the initial delay and the configured maximum.\<close>

definition backoff_ok :: "RateLimiter \<Rightarrow> bool" where
  "backoff_ok s \<longleftrightarrow>
     backoffTime s = 0 \<or> (1000 \<le> backoffTime s \<and> backoffTime s \<le> backoffMax (config s))"

text \<open>The slot set as the methods leave it: no repetition, no empty identifier.\<close>

definition slots_ok :: "RateLimiter \<Rightarrow> bool" where
  "slots_ok s \<longleftrightarrow> distinct (concurrentRequests s) \<and> [] \<notin> set (concurrentRequests s)"

subsection \<open>Concrete limiters\<close>

definition default_config :: PartialRateLimitConfig where
  "default_config =
     \<lparr> optRequestsPerSecond = None, optRequestsPerMinute = None, optRequestsPerHour = None,
       optConcurrent = None, optBackoffMultiplier = None, optBackoffMax = None \<rparr>"

text \<open>Two concurrent slots, five requests per second.\<close>

definition two_slot_config :: PartialRateLimitConfig where
  "two_slot_config =
     \<lparr> optRequestsPerSecond = Some 5, optRequestsPerMinute = None, optRequestsPerHour = None,
       optConcurrent = Some 2, optBackoffMultiplier = None, optBackoffMax = None \<rparr>"

text \<open>
  One caller entering \<open>waitForSlot(''u'')\<close> at clock value 1000 and admitted in its first
  pass, in the same millisecond; and three such calls in a row, none released.
\<close>

definition acquire_u_1000 :: "RateLimiter \<Rightarrow> RateLimiter option" where
  "acquire_u_1000 s = waitForSlot ''u'' 1000 [(1000, id)] s"

definition three_acquires :: "RateLimiter option" where
  "three_acquires =
     Option.bind (Option.bind (acquire_u_1000 (RateLimiter_new two_slot_config)) acquire_u_1000)
       acquire_u_1000"

text \<open>A multiplier of one.\<close>

definition unit_multiplier_config :: PartialRateLimitConfig where
  "unit_multiplier_config =
     \<lparr> optRequestsPerSecond = None, optRequestsPerMinute = None, optRequestsPerHour = None,
       optConcurrent = None, optBackoffMultiplier = Some 1, optBackoffMax = None \<rparr>"

text \<open>A limiter holding a slot taken for \<open>ab\<close> at 5 and one taken for \<open>a\<close> at 7.\<close>

definition two_held_limiter :: RateLimiter where
  "two_held_limiter =
     (RateLimiter_new default_config) \<lparr> concurrentRequests := [''ab-5'', ''a-7''] \<rparr>"

section \<open>IEEE-754 doubles\<close>

text \<open>
  A JavaScript \<open>number\<close> is a binary64 floating-point value: 53 significant bits, exponents
  from -1022 to 1023, subnormals spaced \<open>2 powr -1074\<close> apart. A finite double is modelled by the
  real it denotes. Every arithmetic operation of the source is the exact operation followed
  by rounding to the nearest double, ties to the even significand; a decimal literal is the
  double nearest to it. Overflow to \<open>Infinity\<close> (magnitudes from \<open>2 ^ 1024\<close> on), \<open>NaN\<close>
  and the sign of zero are not modelled.
\<close>

text \<open>Rounding to the nearest integer, ties to even.\<close>

definition rne :: "real \<Rightarrow> int" where
  "rne t = (let f = \<lfloor>t\<rfloor>; r = t - of_int f
            in if r < 1 / 2 then f else if 1 / 2 < r then f + 1 else if even f then f else f + 1)"

text \<open>The spacing of the doubles in the binade of \<open>x\<close>.\<close>

definition quantum :: "real \<Rightarrow> real" where
  "quantum x = 2 powr of_int (max \<lfloor>log 2 \<bar>x\<bar>\<rfloor> (- 1022) - 52)"

text \<open>The double nearest to \<open>x\<close>.\<close>

definition fl :: "real \<Rightarrow> real" where
  "fl x = (if x = 0 then 0 else quantum x * of_int (rne (x / quantum x)))"

definition is_double :: "real \<Rightarrow> bool" where
  "is_double x \<longleftrightarrow> fl x = x"

text \<open>The operators \<open>*\<close> and \<open>+\<close> on doubles.\<close>

definition dmul :: "real \<Rightarrow> real \<Rightarrow> real" where
  "dmul x y = fl (x * y)"

definition dadd :: "real \<Rightarrow> real \<Rightarrow> real" where
  "dadd x y = fl (x + y)"

text \<open>The literals \<open>0.9\<close>, \<open>0.1\<close>, \<open>0.2\<close> and \<open>0.5\<close>.\<close>

definition d0_9 :: real where
  "d0_9 = fl (9 / 10)"

definition d0_1 :: real where
  "d0_1 = fl (1 / 10)"

definition d0_2 :: real where
  "d0_2 = fl (2 / 10)"

definition d0_5 :: real where
  "d0_5 = fl (5 / 10)"


section \<open>Proxy pool (ProxyManager, src/core/proxy-manager.ts)\<close>

text \<open>The \<open>Proxy\<close> record of src/types/index.ts; the property \<open>type\<close> is \<open>ptype\<close> here.\<close>

datatype proxy_type = http | https | socks4 | socks5

record Proxy =
  ptype :: proxy_type
  host :: string
  port :: real
  username :: "string option"
  password :: "string option"
  country :: "string option"
  city :: "string option"
  isResidential :: "bool option"
  lastUsed :: "int option"
  successRate :: "real option"

record ProxyManager =
  proxies :: "Proxy list"
  currentIndex :: nat
  rotationInterval :: real
  lastRotation :: int

text \<open>The constructor reads the clock for \<open>lastRotation\<close>.\<close>

definition ProxyManager_new :: "Proxy list \<Rightarrow> real \<Rightarrow> int \<Rightarrow> ProxyManager" where
  "ProxyManager_new ps interval now =
     \<lparr> proxies = ps, currentIndex = 0, rotationInterval = interval, lastRotation = now \<rparr>"

text \<open>\<open>p.host === proxy.host && p.port === proxy.port\<close>\<close>

definition same_endpoint :: "Proxy \<Rightarrow> Proxy \<Rightarrow> bool" where
  "same_endpoint proxy p \<longleftrightarrow> host p = host proxy \<and> port p = port proxy"

text \<open>\<open>Array.prototype.findIndex\<close>; \<open>None\<close> is its \<open>-1\<close>.\<close>

fun findIndex :: "('a \<Rightarrow> bool) \<Rightarrow> 'a list \<Rightarrow> nat option" where
  "findIndex P [] = None"
| "findIndex P (x # xs) = (if P x then Some 0 else map_option Suc (findIndex P xs))"

text \<open>\<open>Math.floor(Math.random() * array.length)\<close> for a draw \<open>r\<close> of \<open>Math.random()\<close>.\<close>

definition random_index :: "real \<Rightarrow> 'a list \<Rightarrow> nat" where
  "random_index r xs = nat \<lfloor>r * real (length xs)\<rfloor>"

text \<open>\<open>array[i]\<close>, which is \<open>undefined\<close> out of range.\<close>

definition js_nth :: "'a list \<Rightarrow> nat \<Rightarrow> 'a option" where
  "js_nth xs i = (if i < length xs then Some (xs ! i) else None)"

text \<open>
  The pool holds proxy objects; a getter stamps \<open>lastUsed\<close> on the object it returns, which
  is the pool's entry at that index.
\<close>

definition getRandomProxy :: "real \<Rightarrow> int \<Rightarrow> ProxyManager \<Rightarrow> Proxy option \<times> ProxyManager" where
  "getRandomProxy r now pm =
     (if length (proxies pm) = 0 then (None, pm)
      else (let index = random_index r (proxies pm)
            in case js_nth (proxies pm) index of
                 None \<Rightarrow> (None, pm)
               | Some proxy \<Rightarrow>
                   (Some (proxy\<lparr> lastUsed := Some now \<rparr>),
                    pm\<lparr> proxies := (proxies pm)[index := proxy\<lparr> lastUsed := Some now \<rparr>] \<rparr>)))"

text \<open>
  \<open>getBestProxy\<close>: among the proxies with a rate, \<open>reduce\<close> keeps the earlier one only when
  its rate is strictly larger. The winner is returned with its index in the pool, where its
  \<open>lastUsed\<close> is stamped.
\<close>

definition rate_or_zero :: "Proxy \<Rightarrow> real" where
  "rate_or_zero p = or_default (successRate p) 0"

definition better :: "nat \<times> Proxy \<Rightarrow> nat \<times> Proxy \<Rightarrow> nat \<times> Proxy" where
  "better prev current = (if rate_or_zero (snd prev) > rate_or_zero (snd current) then prev else current)"

definition getBestProxy :: "real \<Rightarrow> int \<Rightarrow> ProxyManager \<Rightarrow> Proxy option \<times> ProxyManager" where
  "getBestProxy r now pm =
     (if length (proxies pm) = 0 then (None, pm)
      else (case filter (\<lambda>(i, p). successRate p \<noteq> None) (zip [0..<length (proxies pm)] (proxies pm)) of
              [] \<Rightarrow> getRandomProxy r now pm
            | first # others \<Rightarrow>
                (let (index, best) = foldl better first others
                 in (Some (best\<lparr> lastUsed := Some now \<rparr>),
                     pm\<lparr> proxies := (proxies pm)[index := best\<lparr> lastUsed := Some now \<rparr>] \<rparr>))))"

definition addProxy :: "Proxy \<Rightarrow> ProxyManager \<Rightarrow> ProxyManager" where
  "addProxy proxy pm = pm\<lparr> proxies := proxies pm @ [proxy] \<rparr>"

definition removeProxy :: "Proxy \<Rightarrow> ProxyManager \<Rightarrow> ProxyManager" where
  "removeProxy proxy pm = pm\<lparr> proxies := filter (\<lambda>p. \<not> same_endpoint proxy p) (proxies pm) \<rparr>"

text \<open>What \<open>console.warn\<close> is called with: the removal of the proxy at a host and port.\<close>

datatype warning = RemovingProxy string real

text \<open>
  \<open>updateProxyStats\<close> returns the pool and the warnings it has printed.
  \<open>this.proxies[index].successRate || 0.5\<close> takes the default for an absent rate and for
  a rate of zero. \<open>currentRate * 0.9 + 0.1\<close> is a product rounded to a double, then a sum
  rounded to a double.
\<close>

definition updateProxyStats :: "Proxy \<Rightarrow> bool \<Rightarrow> ProxyManager \<Rightarrow> ProxyManager \<times> warning list" where
  "updateProxyStats proxy success pm =
     (case findIndex (same_endpoint proxy) (proxies pm) of
        None \<Rightarrow> (pm, [])
      | Some index \<Rightarrow>
          (let currentRate = or_default (successRate (proxies pm ! index)) d0_5;
               newRate = (if success then dadd (dmul currentRate d0_9) d0_1
                          else dmul currentRate d0_9);
               pm1 = pm\<lparr> proxies := (proxies pm)[index := (proxies pm ! index)\<lparr> successRate := Some newRate \<rparr>] \<rparr>
           in if newRate < d0_2
              then (removeProxy proxy pm1, [RemovingProxy (host proxy) (port proxy)])
              else (pm1, [])))"

text \<open>The new rate as a function of the outcome and the rate the update starts from.\<close>

definition next_rate :: "bool \<Rightarrow> real \<Rightarrow> real" where
  "next_rate success currentRate =
     (if success then dadd (dmul currentRate d0_9) d0_1 else dmul currentRate d0_9)"

text \<open>The rate an update starts from.\<close>

definition effective_rate :: "Proxy \<Rightarrow> real" where
  "effective_rate p = or_default (successRate p) d0_5"

text \<open>
  The update of the specification, over the reals:
  \<open>score' \<leftarrow> 0.9 * score + 0.1 * [ok ? 1 : 0]\<close>.
\<close>

definition spec_next_score :: "bool \<Rightarrow> real \<Rightarrow> real" where
  "spec_next_score ok score = 0.9 * score + 0.1 * (if ok then 1 else 0)"

subsection \<open>Concrete pools\<close>

definition zero_rated_proxy :: Proxy where
  "zero_rated_proxy =
     \<lparr> ptype = http, host = ''h'', port = 8080, username = None, password = None,
       country = None, city = None, isResidential = None, lastUsed = None,
       successRate = Some 0 \<rparr>"

definition zero_rated_pool :: ProxyManager where
  "zero_rated_pool = ProxyManager_new [zero_rated_proxy] 60000 0"

text \<open>A proxy whose score is the double \<open>1 - 5 / 2 ^ 53\<close>, printed 0.9999999999999994.\<close>

definition near_one_proxy :: Proxy where
  "near_one_proxy =
     \<lparr> ptype = http, host = ''n'', port = 8080, username = None, password = None,
       country = None, city = None, isResidential = None, lastUsed = None,
       successRate = Some (9007199254740987 / 2 ^ 53) \<rparr>"

definition near_one_pool :: ProxyManager where
  "near_one_pool = ProxyManager_new [near_one_proxy] 60000 0"

text \<open>A proxy whose score is the double nearest to 1/9.\<close>

definition ninth_proxy :: Proxy where
  "ninth_proxy =
     \<lparr> ptype = http, host = ''proxy2.example.com'', port = 8080, username = None,
       password = None, country = Some ''UK'', city = None, isResidential = Some False,
       lastUsed = None, successRate = Some (fl (1 / 9)) \<rparr>"

definition ninth_pool :: ProxyManager where
  "ninth_pool = ProxyManager_new [zero_rated_proxy, ninth_proxy] 60000 0"



section \<open>Identity generation (FingerprintGenerator, src/core/fingerprint.ts)\<close>

text \<open>The lists of src/config/default.ts that \<open>generate\<close> draws from.\<close>

definition timezones :: "string list" where
  "timezones =
     [''America/New_York'', ''America/Chicago'', ''America/Los_Angeles'', ''America/Denver'',
      ''Europe/London'', ''Europe/Paris'', ''Asia/Tokyo'', ''Asia/Shanghai'',
      ''Australia/Sydney'']"

definition locales :: "string list" where
  "locales =
     [''en-US'', ''en-GB'', ''en-CA'', ''en-AU'', ''de-DE'', ''fr-FR'', ''es-ES'', ''ja-JP'',
      ''zh-CN'']"

record FingerprintConfig =
  randomizeCanvas :: bool
  randomizeWebGL :: bool
  randomizeAudioContext :: bool
  randomizeFonts :: bool
  randomizeTimezone :: bool
  randomizeLocale :: bool
  randomizeUserAgent :: bool
  randomizeViewport :: bool
  hideWebDriver :: bool
  hideAutomation :: bool
  preventWebRTC :: bool
  spoofHardwareConcurrency :: bool
  spoofDeviceMemory :: bool
  spoofPlatform :: bool
  spoofPlugins :: bool

record WebglRenderer =
  wvendor :: string
  renderer :: string

record Resolution =
  width :: int
  height :: int

record ConcurrencyRange =
  hmin :: int
  hmax :: int

text \<open>The platform record \<open>PlatformProfile\<close>. It has no TLS property.\<close>

record PlatformProfile =
  platform :: string
  userAgents :: "string list"
  vendor :: string
  fonts :: "string list"
  plugins :: "string list"
  webglRenderers :: "WebglRenderer list"
  hardwareConcurrency :: ConcurrencyRange
  deviceMemory :: "int list"
  screenResolutions :: "Resolution list"

definition windowsProfile :: PlatformProfile where
  "windowsProfile =
     \<lparr> platform = ''Win32'',
       userAgents =
        [''Mozilla/5.0 (Windows NT 10.0; Win64; x64) AppleWebKit/537.36 (KHTML, like Gecko) Chrome/120.0.0.0 Safari/537.36'',
         ''Mozilla/5.0 (Windows NT 10.0; Win64; x64) AppleWebKit/537.36 (KHTML, like Gecko) Chrome/119.0.0.0 Safari/537.36'',
         ''Mozilla/5.0 (Windows NT 10.0; Win64; x64) AppleWebKit/537.36 (KHTML, like Gecko) Chrome/121.0.0.0 Safari/537.36'',
         ''Mozilla/5.0 (Windows NT 11.0; Win64; x64) AppleWebKit/537.36 (KHTML, like Gecko) Chrome/120.0.0.0 Safari/537.36''],
       vendor = ''Google Inc.'',
       fonts =
        [''Arial'', ''Arial Black'', ''Calibri'', ''Cambria'', ''Cambria Math'',
         ''Comic Sans MS'', ''Consolas'', ''Courier'', ''Courier New'', ''Georgia'',
         ''Helvetica'', ''Impact'', ''Lucida Console'', ''Lucida Sans Unicode'',
         ''Microsoft Sans Serif'', ''Palatino Linotype'', ''Segoe UI'', ''Tahoma'',
         ''Times New Roman'', ''Trebuchet MS'', ''Verdana''],
       plugins =
        [''PDF Viewer'', ''Chrome PDF Viewer'', ''Chromium PDF Viewer'',
         ''Microsoft Edge PDF Viewer'', ''WebKit built-in PDF''],
       webglRenderers =
        [\<lparr> wvendor = ''Google Inc. (NVIDIA)'',
            renderer = ''ANGLE (NVIDIA, NVIDIA GeForce RTX 3060 Direct3D11 vs_5_0 ps_5_0, D3D11)'' \<rparr>,
         \<lparr> wvendor = ''Google Inc. (NVIDIA)'',
            renderer = ''ANGLE (NVIDIA, NVIDIA GeForce GTX 1660 Ti Direct3D11 vs_5_0 ps_5_0, D3D11)'' \<rparr>,
         \<lparr> wvendor = ''Google Inc. (NVIDIA)'',
            renderer = ''ANGLE (NVIDIA, NVIDIA GeForce RTX 2060 Direct3D11 vs_5_0 ps_5_0, D3D11)'' \<rparr>,
         \<lparr> wvendor = ''Google Inc. (Intel)'',
            renderer = ''ANGLE (Intel, Intel(R) UHD Graphics 630 Direct3D11 vs_5_0 ps_5_0, D3D11)'' \<rparr>,
         \<lparr> wvendor = ''Google Inc. (Intel)'',
            renderer = ''ANGLE (Intel, Intel(R) Iris(R) Xe Graphics Direct3D11 vs_5_0 ps_5_0, D3D11)'' \<rparr>,
         \<lparr> wvendor = ''Google Inc. (AMD)'',
            renderer = ''ANGLE (AMD, AMD Radeon RX 6600 Direct3D11 vs_5_0 ps_5_0, D3D11)'' \<rparr>,
         \<lparr> wvendor = ''Google Inc. (AMD)'',
            renderer = ''ANGLE (AMD, AMD Radeon RX 5700 XT Direct3D11 vs_5_0 ps_5_0, D3D11)'' \<rparr>],
       hardwareConcurrency = \<lparr> hmin = 4, hmax = 16 \<rparr>,
       deviceMemory = [4, 8, 16, 32],
       screenResolutions =
        [\<lparr> width = 1920, height = 1080 \<rparr>,
         \<lparr> width = 1366, height = 768 \<rparr>,
         \<lparr> width = 1536, height = 864 \<rparr>,
         \<lparr> width = 1440, height = 900 \<rparr>,
         \<lparr> width = 2560, height = 1440 \<rparr>] \<rparr>"

definition macProfile :: PlatformProfile where
  "macProfile =
     \<lparr> platform = ''MacIntel'',
       userAgents =
        [''Mozilla/5.0 (Macintosh; Intel Mac OS X 10_15_7) AppleWebKit/537.36 (KHTML, like Gecko) Chrome/120.0.0.0 Safari/537.36'',
         ''Mozilla/5.0 (Macintosh; Intel Mac OS X 10_15_7) AppleWebKit/537.36 (KHTML, like Gecko) Chrome/119.0.0.0 Safari/537.36'',
         ''Mozilla/5.0 (Macintosh; Intel Mac OS X 13_5_1) AppleWebKit/537.36 (KHTML, like Gecko) Chrome/120.0.0.0 Safari/537.36'',
         ''Mozilla/5.0 (Macintosh; Intel Mac OS X 14_0) AppleWebKit/537.36 (KHTML, like Gecko) Chrome/121.0.0.0 Safari/537.36''],
       vendor = ''Google Inc.'',
       fonts =
        [''American Typewriter'', ''Andale Mono'', ''Arial'', ''Arial Black'',
         ''Arial Narrow'', ''Arial Rounded MT Bold'', ''Arial Unicode MS'', ''Avenir'',
         ''Avenir Next'', ''Baskerville'', ''Big Caslon'', ''Bodoni 72'', ''Bradley Hand'',
         ''Brush Script MT'', ''Chalkboard'', ''Chalkboard SE'', ''Comic Sans MS'',
         ''Copperplate'', ''Courier'', ''Courier New'', ''Didot'', ''Futura'', ''Geneva'',
         ''Georgia'', ''Gill Sans'', ''Helvetica'', ''Helvetica Neue'', ''Herculanum'',
         ''Impact'', ''Lucida Grande'', ''Luminari'', ''Marker Felt'', ''Monaco'', ''Optima'',
         ''Palatino'', ''Papyrus'', ''Phosphate'', ''Rockwell'', ''SF Pro Display'',
         ''SF Pro Text'', ''SignPainter'', ''Skia'', ''Snell Roundhand'', ''Tahoma'',
         ''Times'', ''Times New Roman'', ''Trattatello'', ''Trebuchet MS'', ''Verdana'',
         ''Zapfino''],
       plugins =
        [''PDF Viewer'', ''Chrome PDF Viewer'', ''Chromium PDF Viewer'',
         ''Microsoft Edge PDF Viewer'', ''WebKit built-in PDF''],
       webglRenderers =
        [\<lparr> wvendor = ''Intel Inc.'',
            renderer = ''Intel(R) Iris(TM) Plus Graphics 640'' \<rparr>,
         \<lparr> wvendor = ''Intel Inc.'',
            renderer = ''Intel(R) Iris(TM) Plus Graphics 655'' \<rparr>,
         \<lparr> wvendor = ''Intel Inc.'',
            renderer = ''Intel(R) UHD Graphics 630'' \<rparr>,
         \<lparr> wvendor = ''Apple Inc.'',
            renderer = ''Apple M1'' \<rparr>,
         \<lparr> wvendor = ''Apple Inc.'',
            renderer = ''Apple M2'' \<rparr>,
         \<lparr> wvendor = ''Apple Inc.'',
            renderer = ''Apple M1 Pro'' \<rparr>,
         \<lparr> wvendor = ''AMD'',
            renderer = ''AMD Radeon Pro 5500M'' \<rparr>,
         \<lparr> wvendor = ''AMD'',
            renderer = ''AMD Radeon Pro 5300M'' \<rparr>],
       hardwareConcurrency = \<lparr> hmin = 4, hmax = 12 \<rparr>,
       deviceMemory = [8, 16, 32],
       screenResolutions =
        [\<lparr> width = 1440, height = 900 \<rparr>,
         \<lparr> width = 1680, height = 1050 \<rparr>,
         \<lparr> width = 1920, height = 1080 \<rparr>,
         \<lparr> width = 2560, height = 1440 \<rparr>,
         \<lparr> width = 2560, height = 1600 \<rparr>,
         \<lparr> width = 2880, height = 1800 \<rparr>] \<rparr>"

definition linuxProfile :: PlatformProfile where
  "linuxProfile =
     \<lparr> platform = ''Linux x86_64'',
       userAgents =
        [''Mozilla/5.0 (X11; Linux x86_64) AppleWebKit/537.36 (KHTML, like Gecko) Chrome/120.0.0.0 Safari/537.36'',
         ''Mozilla/5.0 (X11; Linux x86_64) AppleWebKit/537.36 (KHTML, like Gecko) Chrome/119.0.0.0 Safari/537.36'',
         ''Mozilla/5.0 (X11; Linux x86_64) AppleWebKit/537.36 (KHTML, like Gecko) Chrome/121.0.0.0 Safari/537.36'',
         ''Mozilla/5.0 (X11; Ubuntu; Linux x86_64) AppleWebKit/537.36 (KHTML, like Gecko) Chrome/120.0.0.0 Safari/537.36''],
       vendor = ''Google Inc.'',
       fonts =
        [''Arial'', ''Arial Black'', ''Comic Sans MS'', ''Courier New'', ''DejaVu Sans'',
         ''DejaVu Sans Mono'', ''DejaVu Serif'', ''Droid Sans'', ''Droid Serif'', ''FreeMono'',
         ''FreeSans'', ''FreeSerif'', ''Georgia'', ''Liberation Mono'', ''Liberation Sans'',
         ''Liberation Serif'', ''Noto Sans'', ''Noto Serif'', ''Times New Roman'', ''Ubuntu'',
         ''Ubuntu Mono'', ''Verdana''],
       plugins =
        [''PDF Viewer'', ''Chrome PDF Viewer'', ''Chromium PDF Viewer'',
         ''Microsoft Edge PDF Viewer'', ''WebKit built-in PDF''],
       webglRenderers =
        [\<lparr> wvendor = ''Intel'',
            renderer = ''Mesa Intel(R) UHD Graphics 630 (CML GT2)'' \<rparr>,
         \<lparr> wvendor = ''Intel'',
            renderer = ''Mesa Intel(R) HD Graphics 620 (KBL GT2)'' \<rparr>,
         \<lparr> wvendor = ''NVIDIA Corporation'',
            renderer = ''NVIDIA GeForce GTX 1660 Ti/PCIe/SSE2'' \<rparr>,
         \<lparr> wvendor = ''NVIDIA Corporation'',
            renderer = ''NVIDIA GeForce RTX 3060/PCIe/SSE2'' \<rparr>,
         \<lparr> wvendor = ''AMD'',
            renderer = ''AMD Radeon RX 6600 (NAVI23, DRM 3.49.0, 6.2.0-26-generic, LLVM 15.0.7)'' \<rparr>,
         \<lparr> wvendor = ''AMD'',
            renderer = ''AMD Radeon RX 5700 XT (NAVI10, DRM 3.49.0, 6.2.0-26-generic, LLVM 15.0.7)'' \<rparr>],
       hardwareConcurrency = \<lparr> hmin = 4, hmax = 32 \<rparr>,
       deviceMemory = [4, 8, 16, 32, 64],
       screenResolutions =
        [\<lparr> width = 1920, height = 1080 \<rparr>,
         \<lparr> width = 1366, height = 768 \<rparr>,
         \<lparr> width = 2560, height = 1440 \<rparr>,
         \<lparr> width = 1440, height = 900 \<rparr>,
         \<lparr> width = 3840, height = 2160 \<rparr>] \<rparr>"

definition platformProfiles :: "PlatformProfile list" where
  "platformProfiles = [windowsProfile, macProfile, linuxProfile]"

text \<open>
  \<open>GeneratedFingerprint\<close>, with the \<open>webglRenderer\<close> that \<open>generate\<close> adds. A property
  whose name a platform record has too is prefixed \<open>fp_\<close>.
\<close>

record GeneratedFingerprint =
  userAgent :: string
  viewport :: Resolution
  fp_platform :: string
  fp_vendor :: string
  language :: string
  timezone :: string
  canvasFingerprint :: string
  webglFingerprint :: string
  audioFingerprint :: string
  fp_fonts :: "string list"
  fp_hardwareConcurrency :: int
  fp_deviceMemory :: int
  fp_plugins :: "string list"
  webglRenderer :: WebglRenderer

text \<open>
  The random choices of one call of \<open>generate\<close>: a draw of \<open>Math.random()\<close> for each place
  that makes one (one per font for the font filter), the order in which \<open>sort\<close> with a random
  comparator leaves the plugins, and the three strings
  \<open>Math.random().toString(36).substring(2, 15)\<close>.
\<close>

record Random =
  rPlatform :: real
  rUserAgent :: real
  rViewport :: real
  rLocale :: real
  rTimezone :: real
  rHardware :: real
  rMemory :: real
  rWebgl :: real
  rFontPercentage :: real
  rFontKeep :: "nat \<Rightarrow> real"
  rPluginCount :: real
  pluginShuffle :: "string list \<Rightarrow> string list"
  rCanvas :: string
  rWebGLHash :: string
  rAudio :: string

text \<open>\<open>Math.random()\<close> is in \<open>[0, 1)\<close>, and sorting permutes.\<close>

definition unit_draw :: "real \<Rightarrow> bool" where
  "unit_draw r \<longleftrightarrow> 0 \<le> r \<and> r < 1"

definition valid_random :: "Random \<Rightarrow> bool" where
  "valid_random rnd \<longleftrightarrow>
     unit_draw (rPlatform rnd) \<and> unit_draw (rUserAgent rnd) \<and> unit_draw (rViewport rnd)
     \<and> unit_draw (rLocale rnd) \<and> unit_draw (rTimezone rnd) \<and> unit_draw (rHardware rnd)
     \<and> unit_draw (rMemory rnd) \<and> unit_draw (rWebgl rnd) \<and> unit_draw (rFontPercentage rnd)
     \<and> (\<forall>i. unit_draw (rFontKeep rnd i)) \<and> unit_draw (rPluginCount rnd)
     \<and> (\<forall>xs. mset (pluginShuffle rnd xs) = mset xs)"

text \<open>\<open>randomElement\<close>: \<open>array[Math.floor(Math.random() * array.length)]\<close>.\<close>

definition randomElement :: "'a list \<Rightarrow> real \<Rightarrow> 'a option" where
  "randomElement array r = js_nth array (random_index r array)"

text \<open>\<open>randomInt\<close>: \<open>Math.floor(Math.random() * (max - min + 1)) + min\<close>.\<close>

definition randomInt :: "int \<Rightarrow> int \<Rightarrow> real \<Rightarrow> int" where
  "randomInt lo hi r = \<lfloor>r * real_of_int (hi - lo + 1)\<rfloor> + lo"

text \<open>\<open>generateFontList\<close>: each font is kept when its own draw exceeds the percentage.\<close>

definition generateFontList :: "FingerprintConfig \<Rightarrow> Random \<Rightarrow> string list \<Rightarrow> string list" where
  "generateFontList cfg rnd platformFonts =
     (if randomizeFonts cfg
      then (let removePercentage = 0.1 + rFontPercentage rnd * 0.2
            in map snd (filter (\<lambda>(i, f). rFontKeep rnd i > removePercentage)
                          (zip [0..<length platformFonts] platformFonts)))
      else platformFonts)"

text \<open>\<open>slice(0, end)\<close>: a negative end counts from the end of the array.\<close>

definition slice0 :: "'a list \<Rightarrow> int \<Rightarrow> 'a list" where
  "slice0 xs e = take (nat (if e < 0 then max 0 (int (length xs) + e) else e)) xs"

definition generatePluginList :: "FingerprintConfig \<Rightarrow> Random \<Rightarrow> string list \<Rightarrow> string list" where
  "generatePluginList cfg rnd platformPlugins =
     (if spoofPlugins cfg
      then (let removeCount = \<lfloor>rPluginCount rnd * 3\<rfloor>;
                shuffled = pluginShuffle rnd platformPlugins
            in slice0 shuffled (int (length platformPlugins) - removeCount))
      else platformPlugins)"

text \<open>
  \<open>generate\<close>. \<open>None\<close> stands for a fingerprint with an \<open>undefined\<close> property, which an
  index out of range would give.
\<close>

definition generate :: "FingerprintConfig \<Rightarrow> Random \<Rightarrow> GeneratedFingerprint option" where
  "generate cfg rnd = do {
     platformProfile \<leftarrow> (if spoofPlatform cfg then randomElement platformProfiles (rPlatform rnd)
                         else js_nth platformProfiles 0);
     ua \<leftarrow> (if randomizeUserAgent cfg
            then randomElement (userAgents platformProfile) (rUserAgent rnd)
            else js_nth (userAgents platformProfile) 0);
     vp \<leftarrow> (if randomizeViewport cfg
            then randomElement (screenResolutions platformProfile) (rViewport rnd)
            else js_nth (screenResolutions platformProfile) 0);
     lang \<leftarrow> (if randomizeLocale cfg then randomElement locales (rLocale rnd)
              else js_nth locales 0);
     tz \<leftarrow> (if randomizeTimezone cfg then randomElement timezones (rTimezone rnd)
            else js_nth timezones 0);
     let hc = (if spoofHardwareConcurrency cfg
               then randomInt (hmin (hardwareConcurrency platformProfile))
                      (hmax (hardwareConcurrency platformProfile)) (rHardware rnd)
               else hmin (hardwareConcurrency platformProfile));
     dm \<leftarrow> (if spoofDeviceMemory cfg
            then randomElement (deviceMemory platformProfile) (rMemory rnd)
            else js_nth (deviceMemory platformProfile) 0);
     wr \<leftarrow> randomElement (webglRenderers platformProfile) (rWebgl rnd);
     let fs = (if randomizeFonts cfg then generateFontList cfg rnd (fonts platformProfile)
               else fonts platformProfile);
     let pl = (if spoofPlugins cfg then generatePluginList cfg rnd (plugins platformProfile)
               else plugins platformProfile);
     Some \<lparr> userAgent = ua,
            viewport = vp,
            fp_platform = platform platformProfile,
            fp_vendor = vendor platformProfile,
            language = lang,
            timezone = tz,
            canvasFingerprint = rCanvas rnd,
            webglFingerprint = rWebGLHash rnd,
            audioFingerprint = rAudio rnd,
            fp_fonts = fs,
            fp_hardwareConcurrency = hc,
            fp_deviceMemory = dm,
            fp_plugins = pl,
            webglRenderer = wr \<rparr>
   }"

text \<open>The identity is drawn from the platform record \<open>p\<close>.\<close>

definition drawn_from :: "PlatformProfile \<Rightarrow> GeneratedFingerprint \<Rightarrow> bool" where
  "drawn_from p fp \<longleftrightarrow>
     fp_platform fp = platform p
     \<and> fp_vendor fp = vendor p
     \<and> userAgent fp \<in> set (userAgents p)
     \<and> viewport fp \<in> set (screenResolutions p)
     \<and> set (fp_fonts fp) \<subseteq> set (fonts p)
     \<and> set (fp_plugins fp) \<subseteq> set (plugins p)
     \<and> webglRenderer fp \<in> set (webglRenderers p)
     \<and> hmin (hardwareConcurrency p) \<le> fp_hardwareConcurrency fp
     \<and> fp_hardwareConcurrency fp \<le> hmax (hardwareConcurrency p)
     \<and> fp_deviceMemory fp \<in> set (deviceMemory p)"

text \<open>Every string a platform record holds.\<close>

definition profile_strings :: "PlatformProfile \<Rightarrow> string list" where
  "profile_strings p =
     platform p # vendor p # userAgents p @ fonts p @ plugins p
       @ map wvendor (webglRenderers p) @ map renderer (webglRenderers p)"


section \<open>Session pool (SessionManager, src/core/session-manager.ts)\<close>

datatype detection_type =
  Captcha | Challenge | Block | FingerprintDetection | RateLimitDetection | Unknown

record Detection =
  dtype :: detection_type
  dtimestamp :: int
  durl :: string
  details :: string

text \<open>
  \<open>ScraperSession\<close>. The browser and its context are handles of the external driver and
  are left out; a page is the handle the driver gave for it.
\<close>

record ScraperSession =
  sid :: string
  pages :: "nat list"
  proxy :: "Proxy option"
  fingerprint :: GeneratedFingerprint
  startTime :: int
  requestCount :: nat
  successCount :: nat
  failureCount :: nat
  detections :: "Detection list"

text \<open>The parts of \<open>StealthConfig\<close> the session manager reads.\<close>

record NetworkConfig =
  proxyEnabled :: bool
  proxyList :: "Proxy list"
  proxyRotationInterval :: real

record StealthConfig =
  fingerprintConfig :: FingerprintConfig
  network :: NetworkConfig

text \<open>
  The keys of \<open>TLS_HTTP2_PROFILES\<close> (src/advanced/tls-http2-fingerprint.ts) with the
  \<open>name\<close> of each profile; the cipher and header tables are left out.
\<close>

definition TLS_HTTP2_PROFILES :: "(string \<times> string) list" where
  "TLS_HTTP2_PROFILES =
     [(''chrome-120-windows'', ''Chrome 120 on Windows''),
      (''chrome-120-macos'', ''Chrome 120 on macOS''),
      (''chrome-119-windows'', ''Chrome 119 on Windows'')]"

text \<open>
  The \<open>Map<string, ScraperSession>\<close> is a list of entries in insertion order; \<open>tlsProfile\<close>
  is the key the TLS manager was constructed with.
\<close>

record SessionManager =
  sessions :: "(string \<times> ScraperSession) list"
  generatorConfig :: FingerprintConfig
  proxyManager :: "ProxyManager option"
  tlsProfile :: string
  maxSessions :: nat

definition map_set :: "'k \<Rightarrow> 'v \<Rightarrow> ('k \<times> 'v) list \<Rightarrow> ('k \<times> 'v) list" where
  "map_set k v m =
     (if k \<in> fst ` set m then map (\<lambda>(k', v'). if k' = k then (k', v) else (k', v')) m
      else m @ [(k, v)])"

definition map_delete :: "'k \<Rightarrow> ('k \<times> 'v) list \<Rightarrow> ('k \<times> 'v) list" where
  "map_delete k m = filter (\<lambda>(k', v'). k' \<noteq> k) m"

text \<open>The constructor; \<open>now\<close> is the clock value the proxy manager's constructor reads.\<close>

definition SessionManager_new :: "StealthConfig \<Rightarrow> nat \<Rightarrow> int \<Rightarrow> SessionManager" where
  "SessionManager_new cfg maxS now =
     \<lparr> sessions = [],
       generatorConfig = fingerprintConfig cfg,
       proxyManager =
         (if proxyEnabled (network cfg) \<and> length (proxyList (network cfg)) > 0
          then Some (ProxyManager_new (proxyList (network cfg))
                       (proxyRotationInterval (network cfg)) now)
          else None),
       tlsProfile = ''chrome-120-windows'',
       maxSessions = maxS \<rparr>"

text \<open>\<open>closeSession\<close>: the pages, the context and the browser are closed, the entry deleted.\<close>

definition closeSession :: "string \<Rightarrow> SessionManager \<Rightarrow> SessionManager" where
  "closeSession sessionId sm =
     (case map_of (sessions sm) sessionId of
        None \<Rightarrow> sm
      | Some session \<Rightarrow> sm\<lparr> sessions := map_delete sessionId (sessions sm) \<rparr>)"

text \<open>
  \<open>cleanupOldestSession\<close>: the loop keeps the session whose \<open>startTime\<close> is strictly below
  the smallest seen so far, starting from the clock value.
\<close>

definition oldest_step :: "ScraperSession option \<times> int \<Rightarrow> ScraperSession \<Rightarrow> ScraperSession option \<times> int" where
  "oldest_step acc session =
     (case acc of (oldestSession, oldestTime) \<Rightarrow>
        if startTime session < oldestTime then (Some session, startTime session)
        else (oldestSession, oldestTime))"

definition cleanupOldestSession :: "int \<Rightarrow> SessionManager \<Rightarrow> SessionManager" where
  "cleanupOldestSession now sm =
     (case fst (foldl oldest_step (None, now) (map snd (sessions sm))) of
        None \<Rightarrow> sm
      | Some oldestSession \<Rightarrow> closeSession (sid oldestSession) sm)"

record CreateOptions =
  useProxy :: "bool option"
  specificProxy :: "Proxy option"
  persistCookies :: "bool option"

text \<open>
  What one call of \<open>createSession\<close> takes from outside: the clock value read by the cleanup,
  the identifier \<open>uuidv4()\<close> gives, the fingerprint \<open>generate()\<close> returns, the draw and the
  clock value of \<open>getBestProxy\<close>, and the clock value stored as \<open>startTime\<close>.
\<close>

record CreateEnv =
  nowCleanup :: int
  uuid :: string
  generated :: GeneratedFingerprint
  rBest :: real
  nowBest :: int
  nowStart :: int

text \<open>
  \<open>createSession\<close>, one caller at a time (the method awaits the driver between the check of
  the size and the insertion; the driver's calls are taken to succeed).
\<close>

definition createSession ::
  "CreateOptions \<Rightarrow> CreateEnv \<Rightarrow> SessionManager \<Rightarrow> ScraperSession \<times> SessionManager" where
  "createSession options env sm =
     (let sm1 = (if length (sessions sm) \<ge> maxSessions sm
                 then cleanupOldestSession (nowCleanup env) sm else sm);
          sessionId = uuid env;
          (chosen, pm) =
             (case proxyManager sm1 of
                None \<Rightarrow> (None, None)
              | Some m \<Rightarrow>
                  if useProxy options = Some True
                  then (case specificProxy options of
                          Some p \<Rightarrow> (Some p, Some m)
                        | None \<Rightarrow> (case getBestProxy (rBest env) (nowBest env) m of
                                     (best, m') \<Rightarrow> (best, Some m')))
                  else (None, Some m));
          session = \<lparr> sid = sessionId, pages = [], proxy = chosen,
                      fingerprint = generated env, startTime = nowStart env,
                      requestCount = 0, successCount = 0, failureCount = 0,
                      detections = [] \<rparr>
      in (session, sm1\<lparr> sessions := map_set sessionId session (sessions sm1),
                        proxyManager := pm \<rparr>))"

text \<open>\<open>createPage\<close>: \<open>None\<close> is the error thrown for an unknown session.\<close>

definition createPage :: "string \<Rightarrow> nat \<Rightarrow> SessionManager \<Rightarrow> SessionManager option" where
  "createPage sessionId page sm =
     (case map_of (sessions sm) sessionId of
        None \<Rightarrow> None
      | Some session \<Rightarrow>
          Some (sm\<lparr> sessions :=
                  map_set sessionId (session\<lparr> pages := pages session @ [page] \<rparr>) (sessions sm) \<rparr>))"

text \<open>\<open>addDetection\<close>, with the warnings of the proxy update it makes.\<close>

definition addDetection :: "string \<Rightarrow> Detection \<Rightarrow> SessionManager \<Rightarrow> SessionManager \<times> warning list" where
  "addDetection sessionId detection sm =
     (case map_of (sessions sm) sessionId of
        None \<Rightarrow> (sm, [])
      | Some session \<Rightarrow>
          (let sm1 = sm\<lparr> sessions :=
                        map_set sessionId
                          (session\<lparr> detections := detections session @ [detection] \<rparr>)
                          (sessions sm) \<rparr>
           in case (proxy session, proxyManager sm1) of
                (Some p, Some m) \<Rightarrow>
                  (let isBlocked = (dtype detection = Block \<or> dtype detection = Captcha)
                   in case updateProxyStats p (\<not> isBlocked) m of
                        (m', ws) \<Rightarrow> (sm1\<lparr> proxyManager := Some m' \<rparr>, ws))
              | _ \<Rightarrow> (sm1, [])))"

text \<open>A session with no open page is idle; one with an open page is in use.\<close>

definition idle :: "ScraperSession \<Rightarrow> bool" where
  "idle s \<longleftrightarrow> pages s = []"

text \<open>The keys are distinct and each entry is stored under its own identifier.\<close>

definition pool_ok :: "SessionManager \<Rightarrow> bool" where
  "pool_ok sm \<longleftrightarrow>
     distinct (map fst (sessions sm)) \<and> list_all (\<lambda>(k, s). sid s = k) (sessions sm)"

subsection \<open>Concrete identities and pools\<close>

definition all_random :: FingerprintConfig where
  "all_random =
     \<lparr> randomizeCanvas = True, randomizeWebGL = True, randomizeAudioContext = True,
       randomizeFonts = True, randomizeTimezone = True, randomizeLocale = True,
       randomizeUserAgent = True, randomizeViewport = True, hideWebDriver = True,
       hideAutomation = True, preventWebRTC = True, spoofHardwareConcurrency = True,
       spoofDeviceMemory = True, spoofPlatform = True, spoofPlugins = True \<rparr>"

definition nothing_random :: FingerprintConfig where
  "nothing_random =
     \<lparr> randomizeCanvas = False, randomizeWebGL = False, randomizeAudioContext = False,
       randomizeFonts = False, randomizeTimezone = False, randomizeLocale = False,
       randomizeUserAgent = False, randomizeViewport = False, hideWebDriver = False,
       hideAutomation = False, preventWebRTC = False, spoofHardwareConcurrency = False,
       spoofDeviceMemory = False, spoofPlatform = False, spoofPlugins = False \<rparr>"

text \<open>
  Draws that pick the second platform (macOS), the eighth locale (\<open>ja-JP\<close>) and the second
  timezone (\<open>America/Chicago\<close>), keep every font and every plugin in order.
\<close>

definition mac_draws :: Random where
  "mac_draws =
     \<lparr> rPlatform = 0.4, rUserAgent = 0, rViewport = 0, rLocale = 0.8, rTimezone = 0.2,
       rHardware = 0, rMemory = 0, rWebgl = 0, rFontPercentage = 0,
       rFontKeep = (\<lambda>i. 0.5), rPluginCount = 0, pluginShuffle = (\<lambda>xs. xs),
       rCanvas = ''k3j9x2m1q0p'', rWebGLHash = ''a8s7d6f5g4h'', rAudio = ''z1x2c3v4b5n'' \<rparr>"

definition plain_config :: StealthConfig where
  "plain_config =
     \<lparr> fingerprintConfig = all_random,
       network = \<lparr> proxyEnabled = False, proxyList = [], proxyRotationInterval = 60000 \<rparr> \<rparr>"

definition some_fingerprint :: GeneratedFingerprint where
  "some_fingerprint =
     \<lparr> userAgent = ''Mozilla/5.0'', viewport = \<lparr> width = 1920, height = 1080 \<rparr>,
       fp_platform = ''Win32'', fp_vendor = ''Google Inc.'', language = ''en-US'',
       timezone = ''America/New_York'', canvasFingerprint = ''c'', webglFingerprint = ''w'',
       audioFingerprint = ''a'', fp_fonts = [], fp_hardwareConcurrency = 4,
       fp_deviceMemory = 4, fp_plugins = [],
       webglRenderer = \<lparr> wvendor = ''Intel'', renderer = ''Mesa'' \<rparr> \<rparr>"

definition no_options :: CreateOptions where
  "no_options = \<lparr> useProxy = None, specificProxy = None, persistCookies = None \<rparr>"

text \<open>
  A pool of one session at most; its only session, started at 0, has page 7 open. A second
  session is asked for at clock value 5.
\<close>

definition busy_session :: ScraperSession where
  "busy_session =
     \<lparr> sid = ''s1'', pages = [7], proxy = None, fingerprint = some_fingerprint,
       startTime = 0, requestCount = 0, successCount = 0, failureCount = 0,
       detections = [] \<rparr>"

definition busy_pool :: SessionManager where
  "busy_pool = (SessionManager_new plain_config 1 0) \<lparr> sessions := [(''s1'', busy_session)] \<rparr>"

definition second_call :: CreateEnv where
  "second_call =
     \<lparr> nowCleanup = 5, uuid = ''s2'', generated = some_fingerprint, rBest = 0, nowBest = 5,
       nowStart = 6 \<rparr>"

text \<open>The same request made in the millisecond in which the first session started.\<close>

definition same_millisecond_call :: CreateEnv where
  "same_millisecond_call =
     \<lparr> nowCleanup = 0, uuid = ''s2'', generated = some_fingerprint, rBest = 0, nowBest = 0,
       nowStart = 0 \<rparr>"



section \<open>Timezone and locale correlation (GeoTimezoneCorrelator)\<close>

text \<open>An object literal is the list of its entries, in the order written.\<close>

definition COUNTRY_TO_TIMEZONES :: "(string \<times> string list) list" where
  "COUNTRY_TO_TIMEZONES =
     [(''US'', [''America/New_York'', ''America/Chicago'', ''America/Denver'',
              ''America/Phoenix'', ''America/Los_Angeles'', ''America/Anchorage'',
              ''Pacific/Honolulu'']),
      (''CA'', [''America/Toronto'', ''America/Winnipeg'', ''America/Edmonton'',
              ''America/Vancouver'', ''America/Halifax'', ''America/St_Johns'']),
      (''MX'', [''America/Mexico_City'', ''America/Tijuana'', ''America/Monterrey'']),
      (''GB'', [''Europe/London'']),
      (''FR'', [''Europe/Paris'']),
      (''DE'', [''Europe/Berlin'']),
      (''IT'', [''Europe/Rome'']),
      (''ES'', [''Europe/Madrid'']),
      (''NL'', [''Europe/Amsterdam'']),
      (''BE'', [''Europe/Brussels'']),
      (''CH'', [''Europe/Zurich'']),
      (''AT'', [''Europe/Vienna'']),
      (''SE'', [''Europe/Stockholm'']),
      (''NO'', [''Europe/Oslo'']),
      (''DK'', [''Europe/Copenhagen'']),
      (''FI'', [''Europe/Helsinki'']),
      (''PL'', [''Europe/Warsaw'']),
      (''CZ'', [''Europe/Prague'']),
      (''PT'', [''Europe/Lisbon'']),
      (''IE'', [''Europe/Dublin'']),
      (''GR'', [''Europe/Athens'']),
      (''CN'', [''Asia/Shanghai'', ''Asia/Urumqi'']),
      (''JP'', [''Asia/Tokyo'']),
      (''KR'', [''Asia/Seoul'']),
      (''IN'', [''Asia/Kolkata'']),
      (''SG'', [''Asia/Singapore'']),
      (''HK'', [''Asia/Hong_Kong'']),
      (''TW'', [''Asia/Taipei'']),
      (''TH'', [''Asia/Bangkok'']),
      (''MY'', [''Asia/Kuala_Lumpur'']),
      (''PH'', [''Asia/Manila'']),
      (''ID'', [''Asia/Jakarta'', ''Asia/Makassar'', ''Asia/Jayapura'']),
      (''VN'', [''Asia/Ho_Chi_Minh'']),
      (''AU'', [''Australia/Sydney'', ''Australia/Melbourne'', ''Australia/Brisbane'',
              ''Australia/Perth'', ''Australia/Adelaide'']),
      (''NZ'', [''Pacific/Auckland'']),
      (''BR'', [''America/Sao_Paulo'', ''America/Manaus'', ''America/Recife'']),
      (''AR'', [''America/Argentina/Buenos_Aires'']),
      (''CL'', [''America/Santiago'']),
      (''CO'', [''America/Bogota'']),
      (''PE'', [''America/Lima'']),
      (''VE'', [''America/Caracas'']),
      (''AE'', [''Asia/Dubai'']),
      (''SA'', [''Asia/Riyadh'']),
      (''IL'', [''Asia/Jerusalem'']),
      (''TR'', [''Europe/Istanbul'']),
      (''EG'', [''Africa/Cairo'']),
      (''ZA'', [''Africa/Johannesburg'']),
      (''KE'', [''Africa/Nairobi'']),
      (''NG'', [''Africa/Lagos'']),
      (''RU'', [''Europe/Moscow'', ''Asia/Yekaterinburg'', ''Asia/Novosibirsk'',
              ''Asia/Vladivostok'']),
      (''UA'', [''Europe/Kiev'']),
      (''RO'', [''Europe/Bucharest'']),
      (''BG'', [''Europe/Sofia''])]"

definition LOCALE_TO_COMMON_TIMEZONE :: "(string \<times> string) list" where
  "LOCALE_TO_COMMON_TIMEZONE =
     [(''en-US'', ''America/New_York''),
      (''en-GB'', ''Europe/London''),
      (''en-CA'', ''America/Toronto''),
      (''en-AU'', ''Australia/Sydney''),
      (''de-DE'', ''Europe/Berlin''),
      (''fr-FR'', ''Europe/Paris''),
      (''es-ES'', ''Europe/Madrid''),
      (''it-IT'', ''Europe/Rome''),
      (''ja-JP'', ''Asia/Tokyo''),
      (''zh-CN'', ''Asia/Shanghai''),
      (''ko-KR'', ''Asia/Seoul''),
      (''pt-BR'', ''America/Sao_Paulo''),
      (''ru-RU'', ''Europe/Moscow''),
      (''ar-SA'', ''Asia/Riyadh''),
      (''tr-TR'', ''Europe/Istanbul''),
      (''nl-NL'', ''Europe/Amsterdam''),
      (''pl-PL'', ''Europe/Warsaw''),
      (''sv-SE'', ''Europe/Stockholm'')]"

text \<open>\<open>toUpperCase\<close> on the letters \<open>a\<close> to \<open>z\<close>; \<open>split\<close> at a character; \<open>includes\<close>.\<close>

definition upper_char :: "char \<Rightarrow> char" where
  "upper_char c =
     (case map_of (zip ''abcdefghijklmnopqrstuvwxyz'' ''ABCDEFGHIJKLMNOPQRSTUVWXYZ'') c of
        None \<Rightarrow> c
      | Some d \<Rightarrow> d)"

definition toUpperCase :: "string \<Rightarrow> string" where
  "toUpperCase s = map upper_char s"

fun split_at :: "char \<Rightarrow> string \<Rightarrow> string list" where
  "split_at c [] = [[]]"
| "split_at c (x # xs) =
     (if x = c then [] # split_at c xs
      else (case split_at c xs of
              [] \<Rightarrow> [[x]]
            | w # ws \<Rightarrow> (x # w) # ws))"

definition js_includes :: "string \<Rightarrow> string \<Rightarrow> bool" where
  "js_includes s part = sublist part s"

text \<open>\<open>getTimezoneForCountry\<close>, with the draw \<open>r\<close> of its \<open>Math.random()\<close>; \<open>None\<close> is \<open>null\<close>.\<close>

definition getTimezoneForCountry :: "real \<Rightarrow> string \<Rightarrow> string option" where
  "getTimezoneForCountry r countryCode =
     (case map_of COUNTRY_TO_TIMEZONES (toUpperCase countryCode) of
        None \<Rightarrow> None
      | Some tzs \<Rightarrow> if length tzs = 0 then None else js_nth tzs (random_index r tzs))"

definition getTimezoneForLocale :: "real \<Rightarrow> string \<Rightarrow> string option" where
  "getTimezoneForLocale r locale =
     (let found = map_of LOCALE_TO_COMMON_TIMEZONE locale
      in if found = None \<or> found = Some []
         then (let parts = split_at CHR ''-'' locale
               in if length parts = 2 then getTimezoneForCountry r (parts ! 1) else None)
         else found)"

definition getLocaleForTimezone :: "string \<Rightarrow> string" where
  "getLocaleForTimezone tz =
     (case find (\<lambda>(locale, t). t = tz) LOCALE_TO_COMMON_TIMEZONE of
        Some (locale, t) \<Rightarrow> locale
      | None \<Rightarrow>
          if prefix ''America/'' tz then ''en-US''
          else if prefix ''Europe/'' tz then
            (if js_includes tz ''London'' then ''en-GB''
             else if js_includes tz ''Paris'' then ''fr-FR''
             else if js_includes tz ''Berlin'' then ''de-DE''
             else ''en-GB'')
          else if prefix ''Asia/'' tz then
            (if js_includes tz ''Tokyo'' then ''ja-JP''
             else if js_includes tz ''Shanghai'' \<or> js_includes tz ''Beijing'' then ''zh-CN''
             else if js_includes tz ''Seoul'' then ''ko-KR''
             else ''en-US'')
          else if prefix ''Australia/'' tz then ''en-AU''
          else ''en-US'')"

text \<open>The validation helper: either direction of the table may agree.\<close>

definition validateConsistency :: "real \<Rightarrow> string \<Rightarrow> string \<Rightarrow> bool" where
  "validateConsistency r tz locale =
     (let expectedLocale = getLocaleForTimezone tz;
          expectedTimezone = getTimezoneForLocale r locale
      in expectedLocale = locale \<or> expectedTimezone = Some tz)"


section \<open>Security test and stress test (StealthScraper, src/core/stealth-scraper.ts)\<close>

text \<open>
  \<open>VulnerabilityReport\<close> of src/types/index.ts; a vulnerability is kept as its severity,
  category and title.
\<close>

record Vulnerability =
  severity :: string
  category :: string
  title :: string

record VulnerabilityReport =
  reportSessionId :: string
  reportTimestamp :: int
  targetUrl :: string
  vulnerabilities :: "Vulnerability list"
  bypassSuccess :: bool
  detectionRate :: js_number
  recommendations :: "string list"

text \<open>
  \<open>VulnerabilityReporter.generateReport(session, targetUrl, bypassSuccess)\<close> is called by
  \<open>testSecurity\<close>, and its file is not among the sources: it is a parameter of the model.
\<close>

type_synonym reporter = "ScraperSession \<Rightarrow> string \<Rightarrow> bool \<Rightarrow> VulnerabilityReport"


record TestOptions =
  attempts :: "real option"
  useProxies :: "bool option"
  simulateHumanBehavior :: "bool option"

text \<open>
  What the browser and the analyzer do in one attempt: the page cannot be opened, or an
  exception is thrown again while the \<open>catch\<close> block closes the page, and the exception
  leaves \<open>testSecurity\<close>; or an exception is thrown inside the \<open>try\<close> block before the
  detections are known and is caught; or the analysis returns its detections.
\<close>

datatype attempt_outcome = PageFails | Fails | Analyzed "Detection list"

record TestEnv =
  createEnv :: CreateEnv
  outcome :: "nat \<Rightarrow> attempt_outcome"
  pageOf :: "nat \<Rightarrow> nat"

text \<open>The calls \<open>testSecurity\<close> makes on the session manager, the pages and the reporter.\<close>

datatype call =
    CreateSession string
  | CreatePage string nat
  | AddDetection string Detection
  | ClosePage nat
  | GenerateReport string bool
  | CloseSession string

text \<open>\<open>detections.some(d => d.type === 'block' || d.type === 'captcha')\<close>\<close>

definition blocking :: "Detection \<Rightarrow> bool" where
  "blocking d \<longleftrightarrow> dtype d = Block \<or> dtype d = Captcha"

definition hasBlocks :: "Detection list \<Rightarrow> bool" where
  "hasBlocks ds = list_ex blocking ds"

text \<open>\<open>detections.forEach(d => this.sessionManager.addDetection(session.id, d))\<close>\<close>

definition addDetections :: "string \<Rightarrow> Detection list \<Rightarrow> SessionManager \<Rightarrow> SessionManager" where
  "addDetections sessionId ds sm = fold (\<lambda>d m. fst (addDetection sessionId d m)) ds sm"

text \<open>
  The state of the loop: the session manager, the calls made so far, and \<open>bypassSuccess\<close>.
  One pass of the loop body for attempt \<open>i\<close>; \<open>None\<close> when an exception leaves it.
\<close>

definition attempt ::
  "string \<Rightarrow> TestEnv \<Rightarrow> nat \<Rightarrow> SessionManager \<times> call list \<times> bool
     \<Rightarrow> (SessionManager \<times> call list \<times> bool) option" where
  "attempt sessionId env i st =
     (case st of (sm, made, bypass) \<Rightarrow>
        (case outcome env i of
           PageFails \<Rightarrow> None
         | Fails \<Rightarrow>
             (case createPage sessionId (pageOf env i) sm of
                None \<Rightarrow> None
              | Some sm1 \<Rightarrow>
                  Some (sm1, made @ [CreatePage sessionId (pageOf env i), ClosePage (pageOf env i)],
                        bypass))
         | Analyzed ds \<Rightarrow>
             (case createPage sessionId (pageOf env i) sm of
                None \<Rightarrow> None
              | Some sm1 \<Rightarrow>
                  Some (addDetections sessionId ds sm1,
                        made @ [CreatePage sessionId (pageOf env i)]
                            @ map (AddDetection sessionId) ds
                            @ [ClosePage (pageOf env i)],
                        if \<not> hasBlocks ds then True else bypass))))"

text \<open>\<open>for (let i = 0; i < attempts; i++)\<close> over the indices still to run.\<close>

fun attempts_loop ::
  "string \<Rightarrow> TestEnv \<Rightarrow> nat list \<Rightarrow> SessionManager \<times> call list \<times> bool
     \<Rightarrow> (SessionManager \<times> call list \<times> bool) option" where
  "attempts_loop sessionId env [] st = Some st"
| "attempts_loop sessionId env (i # is) st =
     (case attempt sessionId env i st of
        None \<Rightarrow> None
      | Some st' \<Rightarrow> attempts_loop sessionId env is st')"

text \<open>The number of passes of a loop \<open>for (i = 0; i < n; i++)\<close> for a number \<open>n\<close>.\<close>

definition passes :: "real \<Rightarrow> nat" where
  "passes n = nat \<lceil>n\<rceil>"

datatype failure = Thrown

record TestResult =
  report :: VulnerabilityReport
  managerAfter :: SessionManager
  calls :: "call list"
  vulnerabilitiesFound :: nat

text \<open>
  \<open>testSecurity\<close>. The session object handed to the reporter is the pool's entry, which
  \<open>addDetection\<close> has updated.
\<close>

definition testSecurity ::
  "reporter \<Rightarrow> string \<Rightarrow> TestOptions \<Rightarrow> TestEnv \<Rightarrow> nat \<Rightarrow> SessionManager
     \<Rightarrow> failure + TestResult" where
  "testSecurity generateReport target options env found sm =
     (let n = or_default (attempts options) 5;
          (session, sm1) =
             createSession \<lparr> useProxy = useProxies options, specificProxy = None,
                             persistCookies = None \<rparr> (createEnv env) sm
      in case attempts_loop (sid session) env [0..<passes n]
                (sm1, [CreateSession (sid session)], False) of
           None \<Rightarrow> Inl Thrown
         | Some (sm2, made, bypass) \<Rightarrow>
             (let current = (case map_of (sessions sm2) (sid session) of
                               None \<Rightarrow> session | Some s \<Rightarrow> s);
                  rep = generateReport current target bypass
              in Inr \<lparr> report = rep,
                       managerAfter = closeSession (sid session) sm2,
                       calls = made @ [GenerateReport (sid session) bypass,
                                      CloseSession (sid session)],
                       vulnerabilitiesFound = found + length (vulnerabilities rep) \<rparr>))"

text \<open>The calls of one attempt, and the sessions and pages a list of calls creates.\<close>

definition attempt_calls :: "string \<Rightarrow> TestEnv \<Rightarrow> nat \<Rightarrow> call list" where
  "attempt_calls sessionId env i =
     (case outcome env i of
        PageFails \<Rightarrow> []
      | Fails \<Rightarrow> [CreatePage sessionId (pageOf env i), ClosePage (pageOf env i)]
      | Analyzed ds \<Rightarrow>
          [CreatePage sessionId (pageOf env i)] @ map (AddDetection sessionId) ds
            @ [ClosePage (pageOf env i)])"

fun created_session :: "call \<Rightarrow> string list" where
  "created_session (CreateSession s) = [s]"
| "created_session c = []"

fun created_page :: "call \<Rightarrow> nat list" where
  "created_page (CreatePage s p) = [p]"
| "created_page c = []"

definition sessions_created :: "call list \<Rightarrow> string list" where
  "sessions_created made = concat (map created_session made)"

definition pages_created :: "call list \<Rightarrow> nat list" where
  "pages_created made = concat (map created_page made)"

text \<open>
  An attempt completed with no detection of kind block or captcha: its analysis returned,
  and every detection it returned has another type.
\<close>

definition clean_attempt :: "TestEnv \<Rightarrow> nat \<Rightarrow> bool" where
  "clean_attempt env i \<longleftrightarrow>
     (case outcome env i of
        Analyzed ds \<Rightarrow> list_all (\<lambda>d. dtype d \<noteq> Block \<and> dtype d \<noteq> Captcha) ds
      | PageFails \<Rightarrow> False
      | Fails \<Rightarrow> False)"


subsection \<open>Stress test\<close>

record StressOptions =
  concurrentSessions :: "real option"
  requestsPerSession :: "real option"
  stressUseProxies :: "bool option"

text \<open>
  What one request of one worker does: the page cannot be opened or closed and the
  exception leaves the worker; \<open>goto\<close> throws; an exception is thrown after \<open>goto\<close> has
  returned and the request has been counted; or the analysis returns that many detections.
\<close>

datatype request_outcome = PageThrows | GotoThrows | ThrowsAfterGoto | Loaded nat

record StressEnv =
  clockStart :: int
  clockEnd :: int
  request :: "nat \<Rightarrow> nat \<Rightarrow> request_outcome"

record Counters =
  totalRequests :: nat
  successfulRequests :: nat
  totalDetections :: nat

definition request_step :: "request_outcome \<Rightarrow> Counters \<Rightarrow> Counters option" where
  "request_step out c =
     (case out of
        PageThrows \<Rightarrow> None
      | GotoThrows \<Rightarrow> Some (c\<lparr> totalRequests := totalRequests c + 1 \<rparr>)
      | ThrowsAfterGoto \<Rightarrow> Some (c\<lparr> totalRequests := totalRequests c + 1 + 1 \<rparr>)
      | Loaded n \<Rightarrow>
          Some (if n = 0
                then c\<lparr> totalRequests := totalRequests c + 1,
                        successfulRequests := successfulRequests c + 1 \<rparr>
                else c\<lparr> totalRequests := totalRequests c + 1,
                        totalDetections := totalDetections c + n \<rparr>))"

text \<open>
  The requests of one worker, and the workers one after another: the counters are only
  added to, so the order in which the workers' requests interleave does not change them.
\<close>

fun worker :: "StressEnv \<Rightarrow> nat \<Rightarrow> nat list \<Rightarrow> Counters \<Rightarrow> Counters option" where
  "worker env w [] c = Some c"
| "worker env w (j # js) c =
     (case request_step (request env w j) c of
        None \<Rightarrow> None
      | Some c' \<Rightarrow> worker env w js c')"

fun workers :: "StressEnv \<Rightarrow> nat list \<Rightarrow> nat list \<Rightarrow> Counters \<Rightarrow> Counters option" where
  "workers env [] js c = Some c"
| "workers env (w # ws) js c =
     (case worker env w js c of
        None \<Rightarrow> None
      | Some c' \<Rightarrow> workers env ws js c')"

record StressResult =
  resultTotalRequests :: nat
  resultSuccessfulRequests :: nat
  resultDetectionRate :: js_number
  averageResponseTime :: js_number

definition stressTest :: "StressOptions \<Rightarrow> StressEnv \<Rightarrow> failure + StressResult" where
  "stressTest options env =
     (let cs = or_default (concurrentSessions options) 5;
          rs = or_default (requestsPerSession options) 10
      in case workers env [0..<passes cs] [0..<passes rs]
                \<lparr> totalRequests = 0, successfulRequests = 0, totalDetections = 0 \<rparr> of
           None \<Rightarrow> Inl Thrown
         | Some c \<Rightarrow>
             Inr \<lparr> resultTotalRequests = totalRequests c,
                   resultSuccessfulRequests = successfulRequests c,
                   resultDetectionRate =
                     js_div (real (totalDetections c)) (real (totalRequests c)),
                   averageResponseTime =
                     js_div (real_of_int (clockEnd env - clockStart env))
                       (real (totalRequests c)) \<rparr>)"

text \<open>How many times a request is counted.\<close>

fun counted :: "request_outcome \<Rightarrow> nat" where
  "counted PageThrows = 0"
| "counted GotoThrows = 1"
| "counted ThrowsAfterGoto = 2"
| "counted (Loaded n) = 1"

subsection \<open>Concrete runs\<close>

definition copying_reporter :: reporter where
  "copying_reporter s u b =
     \<lparr> reportSessionId = sid s, reportTimestamp = 0, targetUrl = u, vulnerabilities = [],
       bypassSuccess = b, detectionRate = Finite 0, recommendations = [] \<rparr>"

definition block_detection :: Detection where
  "block_detection = \<lparr> dtype = Block, dtimestamp = 0, durl = ''t'', details = ''denied'' \<rparr>"

text \<open>Three attempts: blocked, thrown, and analyzed with no detection.\<close>

definition three_attempts :: TestOptions where
  "three_attempts = \<lparr> attempts = Some 3, useProxies = None, simulateHumanBehavior = None \<rparr>"

definition mixed_run :: TestEnv where
  "mixed_run =
     \<lparr> createEnv = second_call,
       outcome = (\<lambda>i. if i = 0 then Analyzed [block_detection]
                       else if i = 1 then Fails else Analyzed []),
       pageOf = (\<lambda>i. 10 + i) \<rparr>"

definition empty_pool :: SessionManager where
  "empty_pool = SessionManager_new plain_config 10 0"








text \<open>Two workers with two requests each, every one loaded without a detection, in 9 s.\<close>

definition two_by_two :: StressOptions where
  "two_by_two =
     \<lparr> concurrentSessions = Some 2, requestsPerSession = Some 2, stressUseProxies = None \<rparr>"

definition nine_seconds :: StressEnv where
  "nine_seconds = \<lparr> clockStart = 1000, clockEnd = 10000, request = (\<lambda>w j. Loaded 0) \<rparr>"


section \<open>Properties of the rate limiter\<close>

lemma show_int_1000: "show_int 1000 = ''1000''"
  by (simp add: show_int_def digits.simps digit_char_def)

lemma lastSecond_clean: "lastSecond now (cleanOldRequests now s) = lastSecond now s"
  unfolding lastSecond_def cleanOldRequests_def
  by (auto simp: Let_def intro!: arg_cong[where f=length] filter_cong)

lemma lastMinute_clean: "lastMinute now (cleanOldRequests now s) = lastMinute now s"
  unfolding lastMinute_def cleanOldRequests_def
  by (auto simp: Let_def intro!: arg_cong[where f=length] filter_cong)

lemma lastHour_clean: "lastHour now (cleanOldRequests now s) = lastHour now s"
  unfolding lastHour_def cleanOldRequests_def
  by (auto simp: Let_def intro!: arg_cong[where f=length] filter_cong)

lemma isInBackoff_clean: "isInBackoff now (cleanOldRequests now s) = isInBackoff now s"
  by (simp add: isInBackoff_def cleanOldRequests_def Let_def)

lemma clean_fields [simp]:
  "concurrentRequests (cleanOldRequests now s) = concurrentRequests s"
  "config (cleanOldRequests now s) = config s"
  "backoffTime (cleanOldRequests now s) = backoffTime s"
  "lastBackoff (cleanOldRequests now s) = lastBackoff s"
  by (simp_all add: cleanOldRequests_def Let_def)

text \<open>What a pass that admits has checked, and what it has changed.\<close>

lemma waitForSlot_iter_Admitted:
  assumes "waitForSlot_iter rid u now s = Admitted s'"
  shows "\<not> isInBackoff now s"
    and "real (length (concurrentRequests s)) < maxConcurrent (config s)"
    and "real (lastSecond now s) < maxRequestsPerSecond (config s)"
    and "real (lastMinute now s) < maxRequestsPerMinute (config s)"
    and "real (lastHour now s) < maxRequestsPerHour (config s)"
    and "requests s' = requests (cleanOldRequests now s) @ [\<lparr> timestamp = now, url = u \<rparr>]"
    and "concurrentRequests s' = set_add rid (concurrentRequests s)"
    and "backoffTime s' = backoffTime s" and "lastBackoff s' = lastBackoff s"
    and "config s' = config s"
  using assms
  unfolding waitForSlot_iter_def Let_def checkLimits_def
  by (auto simp: lastSecond_clean lastMinute_clean lastHour_clean isInBackoff_clean
      split: if_splits)

text \<open>
  C1. The claim: \<open>waitForSlot\<close> returns only under the three window limits, the slot limit
  and outside a backoff window, and on return appends a timestamp and increments the count
  of held slots, so that no limit is ever exceeded. The slot a call takes is named
  \<open>url-Date.now()\<close> with the clock value read on entry, and the slots are a set of names:
  a second call for the same url entered in the same millisecond takes a name the set
  already holds, and the count does not grow. With \<open>maxConcurrent = 2\<close>, three calls for
  \<open>u\<close> entered at clock value 1000 are all admitted, three timestamps are recorded, and the
  limiter holds one slot where three callers hold one each.
\<close>

theorem waitForSlot_slot_name_collision:
  "map_option concurrentRequests three_acquires = Some [''u-1000'']
   \<and> map_option (map timestamp \<circ> requests) three_acquires = Some [1000, 1000, 1000]
   \<and> maxConcurrent (config (RateLimiter_new two_slot_config)) = 2"
  by (simp add: three_acquires_def acquire_u_1000_def two_slot_config_def waitForSlot_def
      requestId_of_def show_int_1000 waitForSlot_iter_def RateLimiter_new_def or_default_def
      cleanOldRequests_def isInBackoff_def checkLimits_def lastSecond_def lastMinute_def
      lastHour_def set_add_def)

text \<open>
  C2, as the claim states it, fails: with \<open>backoffMultiplier = 1\<close> the first trigger sets
  the delay to 1000 ms, below \<open>backoffMax = 60000\<close>, and the second trigger leaves it at
  1000 ms instead of increasing it.
\<close>

theorem triggerBackoff_not_increasing_counterexample:
  "backoffTime (triggerBackoff 0 (RateLimiter_new unit_multiplier_config)) = 1000
   \<and> backoffTime (triggerBackoff 10 (triggerBackoff 0 (RateLimiter_new unit_multiplier_config)))
       = 1000
   \<and> backoffMax (config (triggerBackoff 0 (RateLimiter_new unit_multiplier_config))) = 60000"
  by (simp add: triggerBackoff_def RateLimiter_new_def unit_multiplier_config_def or_default_def)

text \<open>
  C2, amended. For a limiter with \<open>backoffMultiplier \<ge> 1\<close> and \<open>backoffMax \<ge> 1000\<close> whose
  delay is unset or between 1000 and \<open>backoffMax\<close>: \<open>triggerBackoff\<close> at clock value \<open>t\<close>
  sets the delay to \<open>min(max(delay * multiplier, 1000), backoffMax)\<close>, which never exceeds
  \<open>backoffMax\<close>, is strictly larger than the delay before when the multiplier is above one
  and the delay before was below \<open>backoffMax\<close>, and leaves the limiter in such a state again;
  and as long as the backoff fields are as this trigger left them, no pass of \<open>waitForSlot\<close>
  admits at a clock value before \<open>t + delay\<close>.
\<close>

theorem triggerBackoff_amended:
  assumes m: "1 \<le> backoffMultiplier (config s)"
    and mx: "1000 \<le> backoffMax (config s)"
    and inv: "backoff_ok s"
  shows "backoffTime (triggerBackoff t s) = spec_next_delay (config s) (backoffTime s)
       \<and> backoffTime (triggerBackoff t s) \<le> backoffMax (config s)
       \<and> (1 < backoffMultiplier (config s) \<and> backoffTime s < backoffMax (config s)
            \<longrightarrow> backoffTime s < backoffTime (triggerBackoff t s))
       \<and> backoff_ok (triggerBackoff t s)
       \<and> lastBackoff (triggerBackoff t s) = t
       \<and> (\<forall>s2 rid u now s'.
             backoffTime s2 = backoffTime (triggerBackoff t s) \<and> lastBackoff s2 = t
             \<and> waitForSlot_iter rid u now s2 = Admitted s'
             \<longrightarrow> real_of_int t + backoffTime (triggerBackoff t s) \<le> real_of_int now)"
proof -
  let ?d = "backoffTime s" and ?m = "backoffMultiplier (config s)" and ?M = "backoffMax (config s)"
  let ?d' = "backoffTime (triggerBackoff t s)"
  have d': "?d' = (if ?d = 0 then 1000 else min (?d * ?m) ?M)"
    by (simp add: triggerBackoff_def)
  have grow: "?d \<le> ?d * ?m" if "1000 \<le> ?d"
    using that m by (simp add: mult_le_cancel_left1)
  have formula: "?d' = spec_next_delay (config s) ?d"
  proof (cases "?d = 0")
    case True
    then show ?thesis using mx by (simp add: d' spec_next_delay_def)
  next
    case False
    then have "1000 \<le> ?d" using inv by (simp add: backoff_ok_def)
    then have "1000 \<le> ?d * ?m" using grow by linarith
    then show ?thesis using False by (simp add: d' spec_next_delay_def max_def)
  qed
  have bound: "?d' \<le> ?M" using mx by (simp add: d')
  have low: "1000 \<le> ?d'"
  proof (cases "?d = 0")
    case True then show ?thesis by (simp add: d')
  next
    case False
    then have "1000 \<le> ?d" using inv by (simp add: backoff_ok_def)
    from this grow[OF this] have "1000 \<le> ?d * ?m" by linarith
    then show ?thesis using mx False by (simp add: d')
  qed
  have strict: "?d < ?d'" if "1 < ?m" "?d < ?M"
  proof (cases "?d = 0")
    case True then show ?thesis by (simp add: d')
  next
    case False
    then have "1000 \<le> ?d" using inv by (simp add: backoff_ok_def)
    then have "0 < ?d" by linarith
    then have "?d * 1 < ?d * ?m" using that(1) by (simp only: mult_less_cancel_left_pos)
    then show ?thesis using that(2) False by (simp add: d')
  qed
  have inv': "backoff_ok (triggerBackoff t s)"
    using low bound by (simp add: backoff_ok_def triggerBackoff_def)
  have wait: "real_of_int t + ?d' \<le> real_of_int now"
    if "backoffTime s2 = ?d'" "lastBackoff s2 = t" "waitForSlot_iter rid u now s2 = Admitted s'"
    for s2 rid u now s'
  proof -
    have "\<not> isInBackoff now s2" using that(3) by (rule waitForSlot_iter_Admitted)
    moreover have "backoffTime s2 \<noteq> 0" using low that(1) by linarith
    ultimately show ?thesis using that(1,2) by (simp add: isInBackoff_def Let_def)
  qed
  show ?thesis using formula bound strict inv' wait by (simp add: triggerBackoff_def) blast
qed

theorem triggerBackoff_amended_witness:
  "1 \<le> backoffMultiplier (config (triggerBackoff 0 (RateLimiter_new default_config)))
   \<and> 1000 \<le> backoffMax (config (triggerBackoff 0 (RateLimiter_new default_config)))
   \<and> backoff_ok (triggerBackoff 0 (RateLimiter_new default_config))
   \<and> backoffTime (triggerBackoff 0 (RateLimiter_new default_config)) = 1000
   \<and> backoffTime (triggerBackoff 7 (triggerBackoff 0 (RateLimiter_new default_config))) = 2000
   \<and> backoffTime (triggerBackoff 0 (RateLimiter_new default_config))
       < backoffTime (triggerBackoff 7 (triggerBackoff 0 (RateLimiter_new default_config)))"
proof -
  let ?w = "triggerBackoff 0 (RateLimiter_new default_config)"
  have h1: "1 \<le> backoffMultiplier (config ?w)"
    by (simp add: triggerBackoff_def RateLimiter_new_def default_config_def or_default_def)
  have h2: "1000 \<le> backoffMax (config ?w)"
    by (simp add: triggerBackoff_def RateLimiter_new_def default_config_def or_default_def)
  have h3: "backoff_ok ?w"
    by (simp add: backoff_ok_def triggerBackoff_def RateLimiter_new_def default_config_def
        or_default_def)
  have v: "backoffTime ?w = 1000" "backoffMultiplier (config ?w) = 2"
    "backoffMax (config ?w) = 60000"
    by (simp_all add: triggerBackoff_def RateLimiter_new_def default_config_def or_default_def)
  from triggerBackoff_amended[OF h1 h2 h3, of 7]
  have "backoffTime (triggerBackoff 7 ?w) = spec_next_delay (config ?w) (backoffTime ?w)"
    and "1 < backoffMultiplier (config ?w) \<and> backoffTime ?w < backoffMax (config ?w)
            \<longrightarrow> backoffTime ?w < backoffTime (triggerBackoff 7 ?w)"
    by blast+
  then have "backoffTime (triggerBackoff 7 ?w) = 2000"
    "backoffTime ?w < backoffTime (triggerBackoff 7 ?w)"
    using v by (simp_all add: spec_next_delay_def)
  with h1 h2 h3 v(1) show ?thesis by simp
qed

subsection \<open>Admission\<close>

lemma loop_admits:
  "waitForSlot_loop rid u sched s = Some s' \<Longrightarrow>
     \<exists>now s1. now \<in> fst ` set sched \<and> waitForSlot_iter rid u now s1 = Admitted s'"
proof (induction sched arbitrary: s)
  case Nil
  then show ?case by simp
next
  case (Cons a sched)
  obtain now others where a: "a = (now, others)" by (cases a)
  show ?case
  proof (cases "waitForSlot_iter rid u now s")
    case (Admitted s2)
    with Cons.prems a have "s2 = s'" by simp
    with Admitted a have "now \<in> fst ` set (a # sched) \<and> waitForSlot_iter rid u now s = Admitted s'"
      by simp
    then show ?thesis by blast
  next
    case (Sleeping ms s2)
    with Cons.prems a have "waitForSlot_loop rid u sched (others s2) = Some s'" by simp
    from Cons.IH[OF this] obtain n s1 where
      "n \<in> fst ` set sched" "waitForSlot_iter rid u n s1 = Admitted s'" by blast
    then have "n \<in> fst ` set (a # sched) \<and> waitForSlot_iter rid u n s1 = Admitted s'" by simp
    then show ?thesis by blast
  qed
qed

text \<open>
  A call of \<open>waitForSlot\<close> that returns was admitted by one of its passes, at a clock value
  at which the limiter was outside a backoff window, held fewer than \<open>maxConcurrent\<close> slot
  names and had admitted fewer than the per-second, per-minute and per-hour limits in the
  last 1 s, 60 s and 3600 s; the pass appended the timestamp and added the slot's name.
\<close>

theorem waitForSlot_admission_guard:
  assumes "waitForSlot u t0 sched s = Some s'"
  shows "\<exists>now s1. now \<in> fst ` set sched
           \<and> \<not> isInBackoff now s1
           \<and> real (length (concurrentRequests s1)) < maxConcurrent (config s1)
           \<and> real (lastSecond now s1) < maxRequestsPerSecond (config s1)
           \<and> real (lastMinute now s1) < maxRequestsPerMinute (config s1)
           \<and> real (lastHour now s1) < maxRequestsPerHour (config s1)
           \<and> requests s' = requests (cleanOldRequests now s1) @ [\<lparr> timestamp = now, url = u \<rparr>]
           \<and> concurrentRequests s' = set_add (requestId_of u t0) (concurrentRequests s1)"
proof -
  from assms have "waitForSlot_loop (requestId_of u t0) u sched s = Some s'"
    by (simp add: waitForSlot_def)
  from loop_admits[OF this] obtain now s1 where
    n: "now \<in> fst ` set sched" and a: "waitForSlot_iter (requestId_of u t0) u now s1 = Admitted s'"
    by blast
  from n waitForSlot_iter_Admitted(1-7)[OF a] show ?thesis by blast
qed

lemma first_acquire:
  "acquire_u_1000 (RateLimiter_new two_slot_config)
     = Some ((RateLimiter_new two_slot_config)
              \<lparr> requests := [\<lparr> timestamp = 1000, url = ''u'' \<rparr>],
                concurrentRequests := [''u-1000''] \<rparr>)"
  by (simp add: acquire_u_1000_def two_slot_config_def waitForSlot_def
      requestId_of_def show_int_1000 waitForSlot_iter_def RateLimiter_new_def or_default_def
      cleanOldRequests_def isInBackoff_def checkLimits_def lastSecond_def lastMinute_def
      lastHour_def set_add_def)

theorem waitForSlot_admission_guard_witness:
  "acquire_u_1000 (RateLimiter_new two_slot_config)
     = Some ((RateLimiter_new two_slot_config)
              \<lparr> requests := [\<lparr> timestamp = 1000, url = ''u'' \<rparr>],
                concurrentRequests := [''u-1000''] \<rparr>)
   \<and> (\<exists>now s1. now \<in> fst ` set [(1000 :: int, id :: RateLimiter \<Rightarrow> RateLimiter)]
           \<and> \<not> isInBackoff now s1
           \<and> real (length (concurrentRequests s1)) < maxConcurrent (config s1))"
proof -
  from first_acquire have "waitForSlot ''u'' 1000 [(1000, id)] (RateLimiter_new two_slot_config)
     = Some ((RateLimiter_new two_slot_config)
              \<lparr> requests := [\<lparr> timestamp = 1000, url = ''u'' \<rparr>],
                concurrentRequests := [''u-1000''] \<rparr>)"
    by (simp add: acquire_u_1000_def)
  from waitForSlot_admission_guard[OF this] first_acquire show ?thesis by blast
qed


subsection \<open>Releasing a slot\<close>

lemma find_split:
  "find P xs = Some i \<Longrightarrow> \<exists>ys zs. xs = ys @ i # zs \<and> P i \<and> (\<forall>y\<in>set ys. \<not> P y)"
proof (induction xs)
  case Nil
  then show ?case by simp
next
  case (Cons x xs)
  show ?case
  proof (cases "P x")
    case True
    with Cons.prems have "x = i" by simp
    with True show ?thesis by (intro exI[of _ "[]"] exI[of _ xs]) simp
  next
    case False
    with Cons.prems have "find P xs = Some i" by simp
    from Cons.IH[OF this] obtain ys zs
      where "xs = ys @ i # zs" "P i" "\<forall>y\<in>set ys. \<not> P y" by blast
    with False show ?thesis by (intro exI[of _ "x # ys"] exI[of _ zs]) simp
  qed
qed

lemma requestId_of_nonempty: "requestId_of u t0 \<noteq> []"
  by (simp add: requestId_of_def)

lemma prefix_requestId_of: "prefix a b \<Longrightarrow> prefix a (requestId_of b t0)"
  by (simp add: requestId_of_def prefix_def) auto

text \<open>The slot set stays without repetition and without an empty name.\<close>

lemma slots_ok_new: "slots_ok (RateLimiter_new c)"
  by (simp add: slots_ok_def RateLimiter_new_def)

lemma slots_ok_iter:
  assumes "slots_ok s" "waitForSlot_iter (requestId_of u t0) u now s = Admitted s'"
  shows "slots_ok s'"
  using assms(1) waitForSlot_iter_Admitted(7)[OF assms(2)] requestId_of_nonempty[of u t0]
  by (auto simp: slots_ok_def set_add_def)

lemma slots_ok_release: "slots_ok s \<Longrightarrow> slots_ok (releaseSlot u s)"
  by (auto simp: slots_ok_def releaseSlot_def set_delete_def distinct_removeAll
      split: option.splits)

text \<open>
  C10. \<open>releaseSlot(url)\<close> on a limiter whose slot set has no repetition and no empty name:
  when no held slot's name begins with \<open>url\<close> the limiter is unchanged; otherwise exactly the
  first such slot, in insertion order, is removed and the count of held slots drops by one.
  A slot taken for a url \<open>b\<close> that has \<open>url\<close> as a prefix is freed by the release for \<open>url\<close>.
\<close>

theorem releaseSlot_first_match:
  assumes ok: "slots_ok s"
  shows "((\<forall>i\<in>set (concurrentRequests s). \<not> prefix u i) \<longrightarrow> releaseSlot u s = s)
       \<and> ((\<exists>i\<in>set (concurrentRequests s). prefix u i) \<longrightarrow>
            (\<exists>ys i zs. concurrentRequests s = ys @ i # zs \<and> prefix u i
               \<and> (\<forall>y\<in>set ys. \<not> prefix u y)
               \<and> releaseSlot u s = s\<lparr> concurrentRequests := ys @ zs \<rparr>)
            \<and> length (concurrentRequests (releaseSlot u s)) + 1
                = length (concurrentRequests s))
       \<and> (\<forall>b t0 now s0 s1. prefix u b \<and> concurrentRequests s0 = []
              \<and> waitForSlot_iter (requestId_of b t0) b now s0 = Admitted s1
            \<longrightarrow> concurrentRequests (releaseSlot u s1) = [])"
proof (intro conjI impI allI)
  assume "\<forall>i\<in>set (concurrentRequests s). \<not> prefix u i"
  then have "find (\<lambda>i. prefix u i) (concurrentRequests s) = None"
    by (simp add: find_None_iff)
  then show "releaseSlot u s = s" by (simp add: releaseSlot_def)
next
  assume ex: "\<exists>i\<in>set (concurrentRequests s). prefix u i"
  then obtain i where f: "find (\<lambda>i. prefix u i) (concurrentRequests s) = Some i"
    by (cases "find (\<lambda>i. prefix u i) (concurrentRequests s)") (auto simp: find_None_iff)
  from find_split[OF f] obtain ys zs where
    sp: "concurrentRequests s = ys @ i # zs" "prefix u i" "\<forall>y\<in>set ys. \<not> prefix u y"
    by blast
  from ok sp(1) have ne: "i \<noteq> []" and ni: "i \<notin> set ys" "i \<notin> set zs"
    by (auto simp: slots_ok_def)
  from ni have rm: "removeAll i (ys @ i # zs) = ys @ zs" by simp
  have rel: "releaseSlot u s = s\<lparr> concurrentRequests := ys @ zs \<rparr>"
    using f ne sp(1) rm by (simp add: releaseSlot_def set_delete_def)
  show "\<exists>ys i zs. concurrentRequests s = ys @ i # zs \<and> prefix u i
               \<and> (\<forall>y\<in>set ys. \<not> prefix u y)
               \<and> releaseSlot u s = s\<lparr> concurrentRequests := ys @ zs \<rparr>"
    using sp rel by blast
  show "length (concurrentRequests (releaseSlot u s)) + 1 = length (concurrentRequests s)"
    using rel sp(1) by simp
next
  fix b t0 now s0 s1
  assume a: "prefix u b \<and> concurrentRequests s0 = []
              \<and> waitForSlot_iter (requestId_of b t0) b now s0 = Admitted s1"
  then have "concurrentRequests s1 = [requestId_of b t0]"
    using waitForSlot_iter_Admitted(7)[of "requestId_of b t0" b now s0 s1]
    by (simp add: set_add_def)
  then show "concurrentRequests (releaseSlot u s1) = []"
    using a prefix_requestId_of[of u b t0] requestId_of_nonempty[of b t0]
    by (simp add: releaseSlot_def set_delete_def)
qed

theorem releaseSlot_first_match_witness:
  "slots_ok two_held_limiter
   \<and> concurrentRequests (releaseSlot ''a'' two_held_limiter) = [''a-7'']
   \<and> length (concurrentRequests (releaseSlot ''a'' two_held_limiter)) + 1
       = length (concurrentRequests two_held_limiter)"
proof -
  have ok: "slots_ok two_held_limiter" by (simp add: slots_ok_def two_held_limiter_def)
  have ex: "\<exists>i\<in>set (concurrentRequests two_held_limiter). prefix ''a'' i"
    by (simp add: two_held_limiter_def)
  have r: "concurrentRequests (releaseSlot ''a'' two_held_limiter) = [''a-7'']"
    by (simp add: releaseSlot_def two_held_limiter_def set_delete_def)
  from releaseSlot_first_match[OF ok, of "''a''"] ex
  have "length (concurrentRequests (releaseSlot ''a'' two_held_limiter)) + 1
          = length (concurrentRequests two_held_limiter)"
    by blast
  with ok r show ?thesis by simp
qed


section \<open>Rounding to doubles\<close>

lemma rne_err: "\<bar>of_int (rne t) - t\<bar> \<le> 1 / 2"
  unfolding rne_def Let_def by (auto simp: abs_le_iff)

lemma rne_ge:
  assumes "of_int n - 1 / 2 < t"
  shows "n \<le> rne t"
proof -
  have "real_of_int n - 1 < real_of_int (rne t)" using rne_err[of t] assms by linarith
  then have "n - 1 < rne t" by linarith
  then show ?thesis by simp
qed

lemma rne_le:
  assumes "t < of_int n + 1 / 2"
  shows "rne t \<le> n"
proof -
  have "real_of_int (rne t) < real_of_int n + 1" using rne_err[of t] assms by linarith
  then have "rne t < n + 1" by linarith
  then show ?thesis by simp
qed

lemma rne_of_int: "rne (of_int n) = n"
  by (simp add: rne_def)

lemma quantum_pos: "0 < quantum x"
  by (simp add: quantum_def)

lemma floor_log2_bounds:
  assumes "0 < x"
  shows "2 powr of_int \<lfloor>log 2 x\<rfloor> \<le> x" "x < 2 powr of_int (\<lfloor>log 2 x\<rfloor> + 1)"
  using floor_log_eq_powr_iff[of x 2 "\<lfloor>log 2 x\<rfloor>"] assms by simp_all

lemma powr_le_pos:
  fixes x :: real
  assumes "2 powr y \<le> x"
  shows "0 < x"
proof -
  have "(0::real) < 2 powr y" by simp
  with assms show ?thesis by linarith
qed

lemma floor_log2_eq:
  assumes "2 powr of_int k \<le> x" "x < 2 powr of_int (k + 1)"
  shows "\<lfloor>log 2 x\<rfloor> = k"
proof -
  have "0 < x" using assms(1) by (rule powr_le_pos)
  then show ?thesis using floor_log_eq_powr_iff[of x 2 k] assms by simp
qed

lemma floor_log2_less:
  assumes "0 < x" "x < 2 powr of_int k"
  shows "\<lfloor>log 2 x\<rfloor> < k"
proof -
  have "(2::real) powr of_int \<lfloor>log 2 x\<rfloor> < 2 powr of_int k"
    using floor_log2_bounds(1)[OF assms(1)] assms(2) by linarith
  then show ?thesis by simp
qed

lemma quantum_eq:
  assumes "2 powr of_int k \<le> x" "x < 2 powr of_int (k + 1)"
  shows "quantum x = 2 powr of_int (max k (- 1022) - 52)"
proof -
  have "0 < x" using assms(1) by (rule powr_le_pos)
  then show ?thesis using floor_log2_eq[OF assms] by (simp add: quantum_def)
qed

lemma quantum_le:
  assumes "0 < x" "x < 2 powr of_int k" "- 1021 \<le> k"
  shows "quantum x \<le> 2 powr of_int (k - 53)"
proof -
  from floor_log2_less[OF assms(1,2)] assms(3)
  have "max \<lfloor>log 2 x\<rfloor> (- 1022) - 52 \<le> k - 53" by simp
  then have "2 powr of_int (max \<lfloor>log 2 x\<rfloor> (- 1022) - 52) \<le> (2::real) powr of_int (k - 53)"
    by simp
  then show ?thesis using assms(1) by (simp add: quantum_def)
qed

lemma two_powr_neg:
  "(2::real) powr of_int (- 53) = 1 / 2 ^ 53" "(2::real) powr of_int (- 52) = 1 / 2 ^ 52"
  by (simp_all add: powr_minus inverse_eq_divide)

lemma two_powr_neg_real:
  "(2::real) powr (- 53) = 1 / 2 ^ 53" "(2::real) powr (- 52) = 1 / 2 ^ 52"
  by (simp_all add: powr_minus inverse_eq_divide)

lemma fl_err: "\<bar>fl x - x\<bar> \<le> quantum x / 2"
proof (cases "x = 0")
  case True
  then show ?thesis using quantum_pos[of x] by (simp add: fl_def)
next
  case False
  let ?q = "quantum x"
  have q: "0 < ?q" by (rule quantum_pos)
  have "fl x - x = ?q * (of_int (rne (x / ?q)) - x / ?q)"
    using False q by (simp add: fl_def algebra_simps)
  then have "\<bar>fl x - x\<bar> = ?q * \<bar>of_int (rne (x / ?q)) - x / ?q\<bar>"
    using q by (simp add: abs_mult)
  also have "\<dots> \<le> ?q * (1 / 2)"
    using rne_err[of "x / ?q"] q by (intro mult_left_mono) simp_all
  finally show ?thesis by simp
qed

lemma fl_err_below_1:
  assumes "0 \<le> x" "x < 1"
  shows "\<bar>fl x - x\<bar> \<le> 1 / 2 ^ 54"
proof (cases "x = 0")
  case True
  then show ?thesis by (simp add: fl_def)
next
  case False
  with assms have "0 < x" "x < 2 powr of_int 0" by simp_all
  from quantum_le[OF this] have "quantum x \<le> 2 powr of_int (- 53)" by simp
  then have "quantum x \<le> 1 / 2 ^ 53" by (simp only: two_powr_neg)
  then show ?thesis using fl_err[of x] by simp
qed

lemma fl_err_below_2:
  assumes "0 \<le> x" "x < 2"
  shows "\<bar>fl x - x\<bar> \<le> 1 / 2 ^ 53"
proof (cases "x = 0")
  case True
  then show ?thesis by (simp add: fl_def)
next
  case False
  with assms have "0 < x" "x < 2 powr of_int 1" by simp_all
  from quantum_le[OF this] have "quantum x \<le> 2 powr of_int (- 52)" by simp
  then have "quantum x \<le> 1 / 2 ^ 52" by (simp only: two_powr_neg)
  then show ?thesis using fl_err[of x] by simp
qed

lemma fl_nonneg: "0 \<le> x \<Longrightarrow> 0 \<le> fl x"
proof (cases "x = 0")
  case True
  then show ?thesis by (simp add: fl_def)
next
  case False
  assume "0 \<le> x"
  then have "0 \<le> x / quantum x" using quantum_pos[of x] by simp
  then have "0 \<le> rne (x / quantum x)" by (intro rne_ge) simp
  then show ?thesis using False quantum_pos[of x] by (simp add: fl_def)
qed


lemma rne_eq:
  assumes "of_int n - 1 / 2 < t" "t < of_int n + 1 / 2"
  shows "rne t = n"
  using rne_ge[OF assms(1)] rne_le[OF assms(2)] by simp

lemma floor_log2_ge:
  assumes "2 powr of_int k \<le> x"
  shows "k \<le> \<lfloor>log 2 x\<rfloor>"
proof -
  have "0 < x" using assms by (rule powr_le_pos)
  from floor_log2_bounds(2)[OF this] assms
  have "(2::real) powr of_int k < 2 powr of_int (\<lfloor>log 2 x\<rfloor> + 1)" by linarith
  then have "k < \<lfloor>log 2 x\<rfloor> + 1" by simp
  then show ?thesis by simp
qed

lemma fl_rel:
  assumes "2 powr of_int (- 1022) \<le> x"
  shows "\<bar>fl x - x\<bar> \<le> x / 2 ^ 53"
proof -
  have x: "0 < x" using assms by (rule powr_le_pos)
  let ?k = "\<lfloor>log 2 x\<rfloor>"
  from floor_log2_ge[OF assms] have "max ?k (- 1022) = ?k" by simp
  then have "quantum x = 2 powr of_int (?k - 52)" using x by (simp add: quantum_def)
  also have "\<dots> = 2 powr of_int ?k * 2 powr of_int (- 52)"
    by (simp add: powr_add[symmetric])
  also have "\<dots> \<le> x * 2 powr of_int (- 52)"
    using floor_log2_bounds(1)[OF x] by (intro mult_right_mono) simp_all
  finally have "quantum x \<le> x / 2 ^ 52" by (simp only: two_powr_neg) simp
  then show ?thesis using fl_err[of x] by simp
qed

lemma fl_le_1:
  assumes "0 \<le> x" "x < 1 + 1 / 2 ^ 53"
  shows "fl x \<le> 1"
proof -
  consider "x = 0" | "0 < x" "x < 1" | "1 \<le> x" using assms(1) by linarith
  then show ?thesis
  proof cases
    case 1
    then show ?thesis by (simp add: fl_def)
  next
    case 2
    define j where "j = max \<lfloor>log 2 x\<rfloor> (- 1022) - 52"
    have "x < 2 powr of_int 0" using 2 by simp
    from floor_log2_less[OF 2(1) this] have j: "j \<le> 0" by (simp add: j_def)
    have q: "quantum x = 2 powr of_int j" using 2(1) by (simp add: quantum_def j_def)
    have inv: "1 / quantum x = of_int (2 ^ nat (- j))"
      using j by (simp add: q powr_real_of_int field_simps)
    have "x / quantum x < of_int (2 ^ nat (- j)) + 1 / 2"
    proof -
      have "x / quantum x < 1 / quantum x"
        using 2(2) quantum_pos[of x] by (simp add: divide_strict_right_mono)
      then show ?thesis by (simp add: inv)
    qed
    from rne_le[OF this] have "of_int (rne (x / quantum x)) \<le> (of_int (2 ^ nat (- j)) :: real)"
      by (simp only: of_int_le_iff)
    then have "quantum x * of_int (rne (x / quantum x)) \<le> quantum x * (1 / quantum x)"
      using quantum_pos[of x] by (simp only: inv mult_le_cancel_left_pos)
    then show ?thesis using 2(1) quantum_pos[of x] by (simp add: fl_def)
  next
    case 3
    have "2 powr of_int 0 \<le> x" "x < 2 powr of_int (0 + 1)" using 3 assms(2) by simp_all
    from quantum_eq[OF this] have q: "quantum x = 1 / 2 ^ 52" by (simp add: two_powr_neg_real)
    have "x / quantum x < of_int (2 ^ 52) + 1 / 2" using assms(2) by (simp add: q)
    from rne_le[OF this] have "of_int (rne (x / quantum x)) \<le> (2 ^ 52 :: real)"
      by (metis of_int_le_iff of_int_numeral of_int_power)
    then show ?thesis using 3 by (simp add: fl_def q)
  qed
qed

lemma fl_ge_1:
  assumes "1 \<le> x" "x < 2"
  shows "1 \<le> fl x"
proof -
  have "2 powr of_int 0 \<le> x" "x < 2 powr of_int (0 + 1)" using assms by simp_all
  from quantum_eq[OF this] have q: "quantum x = 1 / 2 ^ 52" by (simp add: two_powr_neg_real)
  have "of_int (2 ^ 52) - 1 / 2 < x / quantum x" using assms(1) by (simp add: q)
  from rne_ge[OF this] have "(2 ^ 52 :: real) \<le> of_int (rne (x / quantum x))"
    by (metis of_int_le_iff of_int_numeral of_int_power)
  then show ?thesis using assms by (simp add: fl_def q)
qed

lemma fl_half:
  assumes "1 / 2 \<le> x" "x < 1"
  shows "fl x = of_int (rne (x * 2 ^ 53)) / 2 ^ 53"
proof -
  have "2 powr of_int (- 1) \<le> x" "x < 2 powr of_int (- 1 + 1)"
    using assms by (simp_all add: powr_minus inverse_eq_divide)
  from quantum_eq[OF this] have q: "quantum x = 1 / 2 ^ 53" by (simp add: two_powr_neg_real)
  show ?thesis using assms by (simp add: fl_def q)
qed

lemma double_grid:
  assumes "is_double e" "1 / 2 \<le> e" "e \<le> 1"
  shows "\<exists>S::int. e = of_int S / 2 ^ 53"
proof (cases "e = 1")
  case True
  have "(1::real) = of_int (2 ^ 53) / 2 ^ 53" by simp
  with True show ?thesis by blast
next
  case False
  with assms have "e < 1" by simp
  from fl_half[OF assms(2) this] assms(1) have "e = of_int (rne (e * 2 ^ 53)) / 2 ^ 53"
    by (simp add: is_double_def)
  then show ?thesis by blast
qed

lemma two_powr_neg_nat: "(2::real) powr of_int (- int n) = 1 / 2 ^ n"
  by (simp add: powr_minus powr_realpow inverse_eq_divide)

lemma fl_binade:
  assumes "1 / 2 ^ Suc j \<le> x" "x < 1 / 2 ^ j" "j < 1022"
  shows "fl x = of_int (rne (x * 2 ^ (j + 53))) / 2 ^ (j + 53)"
proof -
  have "(0::real) < 1 / 2 ^ Suc j" by simp
  with assms(1) have x: "0 < x" by linarith
  have "2 powr of_int (- int (Suc j)) \<le> x" using assms(1) by (simp only: two_powr_neg_nat)
  moreover have "- int (Suc j) + 1 = - int j" by simp
  then have "x < 2 powr of_int (- int (Suc j) + 1)" using assms(2) by (simp only: two_powr_neg_nat)
  ultimately have "quantum x = 2 powr of_int (max (- int (Suc j)) (- 1022) - 52)"
    by (rule quantum_eq)
  also have "max (- int (Suc j)) (- 1022) - 52 = - int (j + 53)" using assms(3) by simp
  finally have q: "quantum x = 1 / 2 ^ (j + 53)" by (simp only: two_powr_neg_nat)
  show ?thesis using x by (simp add: fl_def q)
qed

lemma fl_eval:
  assumes "1 / 2 ^ Suc j \<le> x" "x < 1 / 2 ^ j" "j < 1022"
    and "of_int n - 1 / 2 < x * 2 ^ (j + 53)" "x * 2 ^ (j + 53) < of_int n + 1 / 2"
  shows "fl x = of_int n / 2 ^ (j + 53)"
  using fl_binade[OF assms(1-3)] rne_eq[OF assms(4,5)] by simp

lemma d0_9_val: "d0_9 = 8106479329266893 / 2 ^ 53"
  unfolding d0_9_def using fl_eval[of 0 "9 / 10" 8106479329266893] by simp

lemma d0_1_val: "d0_1 = 3602879701896397 / 2 ^ 55"
  unfolding d0_1_def using fl_eval[of 3 "1 / 10" 7205759403792794] by simp

lemma d0_2_val: "d0_2 = 3602879701896397 / 2 ^ 54"
  unfolding d0_2_def using fl_eval[of 2 "2 / 10" 7205759403792794] by simp


lemma pw54:
  "(1::real) / 2 ^ 53 = 2 * (1 / 2 ^ 54)" "(1::real) / 2 ^ 52 = 4 * (1 / 2 ^ 54)"
  "(1::real) / 2 ^ 55 = 1 / 2 * (1 / 2 ^ 54)" "(3::real) / 2 ^ 54 = 3 * (1 / 2 ^ 54)"
  by simp_all

lemma d0_5_val: "d0_5 = 1 / 2"
  unfolding d0_5_def using fl_eval[of 0 "5 / 10" "2 ^ 52"] by simp

lemma fail_range:
  assumes "0 \<le> e" "e \<le> 1"
  shows "0 \<le> dmul e d0_9" "dmul e d0_9 \<le> d0_9 + 1 / 2 ^ 54"
    "\<bar>dmul e d0_9 - e * d0_9\<bar> \<le> 1 / 2 ^ 54"
proof -
  have y: "0 \<le> e * d0_9" "e * d0_9 \<le> d0_9" "e * d0_9 < 1"
    using assms by (simp_all add: d0_9_val mult_left_le_one_le)
  show "0 \<le> dmul e d0_9" unfolding dmul_def using y(1) by (rule fl_nonneg)
  from fl_err_below_1[OF y(1) y(3)] show e: "\<bar>dmul e d0_9 - e * d0_9\<bar> \<le> 1 / 2 ^ 54"
    by (simp add: dmul_def)
  from e y(2) show "dmul e d0_9 \<le> d0_9 + 1 / 2 ^ 54" by linarith
qed

lemma success_range:
  assumes "0 \<le> e" "e \<le> 1"
  shows "0 \<le> dadd (dmul e d0_9) d0_1" "dadd (dmul e d0_9) d0_1 \<le> 1"
    "\<bar>dadd (dmul e d0_9) d0_1 - (e * d0_9 + d0_1)\<bar> \<le> 3 / 2 ^ 54"
proof -
  note r = fail_range[OF assms]
  have s: "0 \<le> dmul e d0_9 + d0_1" "dmul e d0_9 + d0_1 < 1 + 1 / 2 ^ 53"
    using r(1,2) by (simp_all add: d0_9_val d0_1_val)
  show "0 \<le> dadd (dmul e d0_9) d0_1" unfolding dadd_def using s(1) by (rule fl_nonneg)
  show "dadd (dmul e d0_9) d0_1 \<le> 1" unfolding dadd_def using s by (rule fl_le_1)
  have "dmul e d0_9 + d0_1 < 2" using s(2) by simp
  from fl_err_below_2[OF s(1) this]
  have "\<bar>dadd (dmul e d0_9) d0_1 - (dmul e d0_9 + d0_1)\<bar> \<le> 1 / 2 ^ 53"
    by (simp add: dadd_def)
  with r(3) show "\<bar>dadd (dmul e d0_9) d0_1 - (e * d0_9 + d0_1)\<bar> \<le> 3 / 2 ^ 54"
    unfolding pw54 by linarith
qed

lemma next_rate_range:
  assumes "0 \<le> e" "e \<le> 1"
  shows "0 \<le> next_rate ok e" "next_rate ok e \<le> 1"
  using fail_range(1,2)[OF assms] success_range(1,2)[OF assms]
  by (simp_all add: next_rate_def d0_9_val)

lemma next_rate_near_spec:
  assumes "0 \<le> e" "e \<le> 1"
  shows "\<bar>next_rate ok e - spec_next_score ok e\<bar> \<le> 1 / 2 ^ 52"
proof -
  have a: "\<bar>e * d0_9 - 0.9 * e\<bar> \<le> 1 / 2 ^ 55"
  proof -
    define z where "z = e * (d0_9 - 0.9)"
    have eq: "e * d0_9 - 0.9 * e = z" by (simp add: z_def algebra_simps)
    define w where "w = (1::real) / 2 ^ 55"
    have c: "0 \<le> d0_9 - 0.9" "d0_9 - 0.9 \<le> w" by (simp_all add: d0_9_val w_def)
    have "0 \<le> z" unfolding z_def using assms(1) c(1) by (rule mult_nonneg_nonneg)
    moreover have "e * (d0_9 - 0.9) \<le> 1 * (d0_9 - 0.9)" using assms(2) c(1)
      by (rule mult_right_mono)
    then have "z \<le> d0_9 - 0.9" unfolding z_def by (simp only: mult_1)
    ultimately have "\<bar>z\<bar> \<le> w" using c(2) by linarith
    then show ?thesis by (simp only: eq w_def)
  qed
  have b: "\<bar>d0_1 - 0.1\<bar> \<le> 1 / 2 ^ 55" by (simp add: d0_1_val)
  show ?thesis
  proof (cases ok)
    case True
    from success_range(3)[OF assms] a b
    have "\<bar>dadd (dmul e d0_9) d0_1 - (0.9 * e + 0.1)\<bar> \<le> 1 / 2 ^ 52"
      unfolding pw54 by linarith
    then show ?thesis using True by (simp add: next_rate_def spec_next_score_def)
  next
    case False
    from fail_range(3)[OF assms] a
    have "\<bar>dmul e d0_9 - 0.9 * e\<bar> \<le> 1 / 2 ^ 52"
      unfolding pw54 by linarith
    then show ?thesis using False by (simp add: next_rate_def spec_next_score_def)
  qed
qed

lemma two_powr_1021: "(2::real) powr of_int (- 1021) = 2 * 2 powr of_int (- 1022)"
proof -
  have "(2::real) powr of_int (- 1021) = 2 powr (1 + of_int (- 1022))" by simp
  also have "\<dots> = 2 powr 1 * 2 powr of_int (- 1022)" by (rule powr_add)
  finally show ?thesis by simp
qed

lemma fl_rel_bounds:
  assumes "2 powr of_int (- 1021) \<le> e"
  shows "fl (e * d0_9) < e" "0 < fl (e * d0_9)"
proof -
  have e: "0 < e" using assms by (rule powr_le_pos)
  define y where "y = e * d0_9"
  have "2 powr of_int (- 1022) \<le> e / 2" using assms by (simp only: two_powr_1021)
  also have "e / 2 \<le> y" using e by (simp add: y_def d0_9_val)
  finally have r: "\<bar>fl y - y\<bar> \<le> y / 2 ^ 53" by (rule fl_rel)
  have y: "0 < y" using e by (simp add: y_def d0_9_val)
  have c: "d0_9 + d0_9 / 2 ^ 53 < 1" by (simp add: d0_9_val)
  have lt: "e * (d0_9 + d0_9 / 2 ^ 53) < e * 1" using e c by (intro mult_strict_left_mono)
  have eq: "y + y / 2 ^ 53 = e * (d0_9 + d0_9 / 2 ^ 53)" by (simp add: y_def algebra_simps)
  have "y + y / 2 ^ 53 < e" unfolding eq using lt by (simp only: mult_1_right)
  with r have "fl y < e" by linarith
  moreover have "y / 2 ^ 53 < y" using y by simp
  with r have "0 < fl y" by linarith
  ultimately show "fl (e * d0_9) < e" "0 < fl (e * d0_9)" by (simp_all add: y_def)
qed

lemma fail_lt:
  assumes "2 powr of_int (- 1021) \<le> e"
  shows "dmul e d0_9 < e"
  using fl_rel_bounds(1)[OF assms] by (simp add: dmul_def)

lemma quantum_subnormal:
  assumes "0 < x" "x < 2 powr of_int (- 1021)"
  shows "quantum x = 2 powr of_int (- 1074)"
proof -
  from floor_log2_less[OF assms] have "max \<lfloor>log 2 x\<rfloor> (- 1022) = - 1022" by simp
  then show ?thesis using assms(1) by (simp add: quantum_def)
qed

lemma fail_le:
  assumes "is_double e" "0 < e"
  shows "dmul e d0_9 \<le> e" "0 < dmul e d0_9"
proof -
  have both: "dmul e d0_9 \<le> e \<and> 0 < dmul e d0_9"
  proof (cases "2 powr of_int (- 1021) \<le> e")
    case True
    from fl_rel_bounds[OF True] show ?thesis by (simp add: dmul_def)
  next
    case False
    then have lt: "e < 2 powr of_int (- 1021)" by simp
    let ?q = "2 powr of_int (- 1074) :: real"
    have q: "0 < ?q" by simp
    have y: "0 < e * d0_9" "e * d0_9 < e" using assms(2) by (simp_all add: d0_9_val)
    have qe: "quantum e = ?q" using assms(2) lt by (rule quantum_subnormal)
    have qy: "quantum (e * d0_9) = ?q" using y lt by (intro quantum_subnormal) simp_all
    define m where "m = rne (e / ?q)"
    have em: "e = ?q * of_int m"
      using assms by (simp add: is_double_def fl_def qe m_def)
    then have m: "e / ?q = of_int m" by simp
    have "0 < m" using em assms(2) q by (simp add: zero_less_mult_iff)
    have t: "e * d0_9 / ?q = of_int m * d0_9" by (simp add: m[symmetric])
    have "of_int m * d0_9 < (of_int m :: real) + 1 / 2"
      using \<open>0 < m\<close> by (simp add: d0_9_val)
    then have "e * d0_9 / ?q < of_int m + 1 / 2" by (simp only: t)
    from rne_le[OF this] have le: "rne (e * d0_9 / ?q) \<le> m" .
    have "of_int 1 - 1 / 2 < e * d0_9 / ?q"
    proof -
      have "(1::real) \<le> of_int m" using \<open>0 < m\<close> by simp
      then have "of_int 1 - 1 / 2 < (of_int m :: real) * d0_9" by (simp add: d0_9_val)
      then show ?thesis by (simp only: t)
    qed
    from rne_ge[OF this] have ge: "1 \<le> rne (e * d0_9 / ?q)" .
    have ne: "e * d0_9 \<noteq> 0" using y(1) by linarith
    have f: "dmul e d0_9 = ?q * of_int (rne (e * d0_9 / ?q))"
      unfolding dmul_def fl_def qy using ne by (simp only: if_False)
    have "dmul e d0_9 \<le> ?q * of_int m" unfolding f using le q by simp
    moreover have "0 < dmul e d0_9" unfolding f using ge q by simp
    ultimately show ?thesis using em by simp
  qed
  from both show "dmul e d0_9 \<le> e" "0 < dmul e d0_9" by simp_all
qed

lemma success_lt:
  assumes "0 \<le> e" "e \<le> 1 - 1 / 2 ^ 49"
  shows "e < dadd (dmul e d0_9) d0_1"
proof -
  have "(0::real) \<le> 1 / 2 ^ 49" by simp
  with assms(2) have e1: "e \<le> 1" by linarith
  from success_range(3)[OF assms(1) e1]
  have "e * d0_9 + d0_1 - 3 / 2 ^ 54 \<le> dadd (dmul e d0_9) d0_1" by linarith
  moreover have "e * (1 - d0_9) \<le> (1 - 1 / 2 ^ 49) * (1 - d0_9)"
    using assms(2) by (intro mult_right_mono) (simp_all add: d0_9_val)
  moreover have "(1 - 1 / 2 ^ 49) * (1 - d0_9) < d0_1 - 3 / 2 ^ 54"
    by (simp add: d0_9_val d0_1_val)
  moreover have "e * (1 - d0_9) = e - e * d0_9" by (simp add: algebra_simps)
  ultimately show ?thesis by linarith
qed

lemma success_le:
  assumes "is_double e" "0 \<le> e" "e \<le> 1"
  shows "e \<le> dadd (dmul e d0_9) d0_1"
proof (cases "e \<le> 1 - 1 / 2 ^ 49")
  case True
  from success_lt[OF assms(2) True] show ?thesis by simp
next
  case False
  then have half: "1 / 2 \<le> e" by simp
  from double_grid[OF assms(1) half assms(3)] obtain S :: int where S: "e = of_int S / 2 ^ 53"
    by blast
  let ?s = "dmul e d0_9 + d0_1"
  note r = fail_range[OF assms(2,3)]
  have n1: "d0_1 - (1 - d0_9) = 1 / 2 ^ 55" "d0_9 + 1 / 2 ^ 54 + d0_1 < 2"
    by (simp_all add: d0_9_val d0_1_val)
  have "e * (1 - d0_9) \<le> 1 * (1 - d0_9)"
    using assms(3) by (intro mult_right_mono) (simp_all add: d0_9_val)
  then have "e - e * d0_9 \<le> 1 - d0_9" by (simp add: algebra_simps)
  then have lo: "e - 1 / 2 ^ 55 \<le> ?s" using r(3) n1(1) unfolding pw54 by linarith
  have hi: "?s < 2" using r(2) n1(2) by linarith
  show ?thesis
  proof (cases "?s < 1")
    case True
    have "1 / 2 \<le> ?s" using lo False by simp
    from fl_half[OF this True] have f: "fl ?s = of_int (rne (?s * 2 ^ 53)) / 2 ^ 53" .
    have "of_int S - 1 / 2 < ?s * 2 ^ 53" using lo by (simp add: S field_simps)
    from rne_ge[OF this] have "(of_int S :: real) \<le> of_int (rne (?s * 2 ^ 53))" by simp
    then have "of_int S / 2 ^ 53 \<le> of_int (rne (?s * 2 ^ 53)) / (2 ^ 53 :: real)"
      by (rule divide_right_mono) simp
    then have "e \<le> fl ?s" by (simp only: f S[symmetric])
    then show ?thesis by (simp only: dadd_def)
  next
    case False
    then have "1 \<le> ?s" by simp
    from fl_ge_1[OF this hi] assms(3) show ?thesis by (simp add: dadd_def)
  qed
qed


lemma powr_shift: "(2::real) powr of_int (k - int n) * 2 ^ n = 2 powr of_int k"
proof -
  have "(2::real) ^ n = 2 powr real n" by (simp add: powr_realpow)
  then have "(2::real) powr of_int (k - int n) * 2 ^ n = 2 powr (of_int (k - int n) + real n)"
    by (simp only: powr_add)
  also have "of_int (k - int n) + real n = of_int k" by simp
  finally show ?thesis .
qed

lemma of_int_pow2:
  "2 ^ m \<le> n \<Longrightarrow> (2::real) ^ m \<le> of_int n"
  "n \<le> 2 ^ m \<Longrightarrow> of_int n \<le> (2::real) ^ m"
  "n < 2 ^ m \<Longrightarrow> of_int n < (2::real) ^ m"
  by (metis of_int_le_iff of_int_less_iff of_int_numeral of_int_power)+

lemma fl_grid_point:
  assumes q: "quantum (q * of_int n) = q" and n: "0 \<le> n"
  shows "fl (q * of_int n) = q * of_int n"
proof (cases "q * of_int n = 0")
  case True
  then show ?thesis by (simp add: fl_def)
next
  case False
  have "0 < q" using q quantum_pos[of "q * of_int n"] by simp
  then have "q * of_int n / q = of_int n" by simp
  then show ?thesis using False by (simp only: fl_def q if_False rne_of_int)
qed

lemma fl_fl:
  assumes "0 \<le> x"
  shows "fl (fl x) = fl x"
proof (cases "x = 0")
  case True
  then show ?thesis by (simp add: fl_def)
next
  case False
  with assms have x: "0 < x" by simp
  define k where "k = \<lfloor>log 2 x\<rfloor>"
  note b = floor_log2_bounds[OF x, folded k_def]
  define q where "q = quantum x"
  define n where "n = rne (x / q)"
  have f: "fl x = q * of_int n" using False by (simp add: fl_def q_def n_def)
  have qpos: "0 < q" unfolding q_def by (rule quantum_pos)
  have "0 < x / q" using x qpos by (rule divide_pos_pos)
  then have "of_int 0 - 1 / 2 < x / q" by simp
  from rne_ge[OF this] have n0: "0 \<le> n" by (simp add: n_def)
  show ?thesis
  proof (cases "- 1022 \<le> k")
    case True
    then have qk: "q = 2 powr of_int (k - 52)" using x by (simp add: q_def quantum_def k_def)
    have s52: "q * 2 ^ 52 = 2 powr of_int k" using powr_shift[of k 52] by (simp add: qk)
    have s53: "q * 2 ^ 53 = 2 powr of_int (k + 1)" using powr_shift[of "k + 1" 53] by (simp add: qk)
    from b(1) have "q * 2 ^ 52 \<le> x" by (simp only: s52)
    then have lo: "2 ^ 52 \<le> x / q" using qpos by (simp add: pos_le_divide_eq mult.commute)
    from b(2) have "x < q * 2 ^ 53" by (simp only: s53)
    then have hi: "x / q < 2 ^ 53" using qpos by (simp add: pos_divide_less_eq mult.commute)
    have c52: "(of_int (2 ^ 52) :: real) = 2 ^ 52" "(of_int (2 ^ 53) :: real) = 2 ^ 53" by simp_all
    have "of_int (2 ^ 52) - 1 / 2 < x / q" unfolding c52 using lo by linarith
    from rne_ge[OF this] have nlo: "2 ^ 52 \<le> n" by (simp add: n_def)
    have "x / q < of_int (2 ^ 53) + 1 / 2" unfolding c52 using hi by linarith
    from rne_le[OF this] have nhi: "n \<le> 2 ^ 53" by (simp add: n_def)
    have glo: "2 powr of_int k \<le> q * of_int n"
    proof -
      have "q * 2 ^ 52 \<le> q * of_int n" using of_int_pow2(1)[OF nlo] qpos by simp
      then show ?thesis by (simp only: s52)
    qed
    show ?thesis
    proof (cases "n = 2 ^ 53")
      case True
      have v: "q * of_int n = 2 powr of_int (k + 1)" using s53 by (simp add: True)
      have "2 powr of_int (k + 1) \<le> q * of_int n" "q * of_int n < 2 powr of_int (k + 1 + 1)"
        by (simp_all add: v)
      from quantum_eq[OF this] \<open>- 1022 \<le> k\<close>
      have "quantum (q * of_int n) = 2 powr of_int (k + 1 - 52)" by simp
      also have "\<dots> = 2 * q"
      proof -
        have "(2::real) powr of_int (k + 1 - 52) = 2 powr (1 + of_int (k - 52))" by simp
        also have "\<dots> = 2 powr 1 * 2 powr of_int (k - 52)" by (rule powr_add)
        finally show ?thesis by (simp add: qk)
      qed
      finally have qq: "quantum (q * of_int n) = 2 * q" .
      have ne: "q * of_int n \<noteq> 0" using qpos by (simp add: True)
      have d: "q * of_int n / (2 * q) = of_int (2 ^ 52)" using qpos by (simp add: True)
      have "fl (q * of_int n) = 2 * q * of_int (rne (of_int (2 ^ 52)))"
        unfolding fl_def qq d using ne by (simp only: if_False)
      also have "\<dots> = q * of_int n" by (simp only: rne_of_int) (simp add: True)
      finally show ?thesis by (simp only: f)
    next
      case False
      with nhi have "n < 2 ^ 53" by simp
      then have "(of_int n :: real) < 2 ^ 53" by (rule of_int_pow2(3))
      then have "q * of_int n < q * 2 ^ 53" using qpos by simp
      then have ghi: "q * of_int n < 2 powr of_int (k + 1)" by (simp only: s53)
      from quantum_eq[OF glo ghi] \<open>- 1022 \<le> k\<close>
      have "quantum (q * of_int n) = q" by (simp add: qk)
      from fl_grid_point[OF this n0] show ?thesis by (simp only: f)
    qed
  next
    case False
    then have kk: "k + 1 \<le> - 1022" by simp
    have "(2::real) powr of_int (k + 1) \<le> 2 powr of_int (- 1022)"
      using kk by simp
    with b(2) have xs: "x < 2 powr of_int (- 1022)" by linarith
    have "(2::real) powr of_int (- 1022) < 2 powr of_int (- 1021)" by simp
    with xs have "x < 2 powr of_int (- 1021)" by linarith
    from quantum_subnormal[OF x this] have qv: "q = 2 powr of_int (- 1074)" by (simp add: q_def)
    have s52: "q * 2 ^ 52 = 2 powr of_int (- 1022)" using powr_shift[of "- 1022" 52] by (simp add: qv)
    from xs have "x < q * 2 ^ 52" by (simp only: s52)
    then have "x / q < 2 ^ 52" using qpos by (simp add: pos_divide_less_eq mult.commute)
    moreover have "(of_int (2 ^ 52) :: real) = 2 ^ 52" by simp
    ultimately have "x / q < of_int (2 ^ 52) + 1 / 2" by linarith
    from rne_le[OF this] have nhi: "n \<le> 2 ^ 52" by (simp add: n_def)
    then have "(of_int n :: real) \<le> 2 ^ 52" by (rule of_int_pow2(2))
    then have "q * of_int n \<le> q * 2 ^ 52" using qpos by simp
    then have le: "q * of_int n \<le> 2 powr of_int (- 1022)" by (simp only: s52)
    show ?thesis
    proof (cases "n = 0")
      case True
      have z: "fl x = 0" using f True by simp
      show ?thesis unfolding z by (simp add: fl_def)
    next
      case False
      with n0 have "0 < n" by simp
      then have pos: "0 < q * of_int n" using qpos by simp
      have "(2::real) powr of_int (- 1022) < 2 powr of_int (- 1021)" by simp
      with le have "q * of_int n < 2 powr of_int (- 1021)" by linarith
      from quantum_subnormal[OF pos this] have "quantum (q * of_int n) = q" by (simp add: qv)
      from fl_grid_point[OF this n0] show ?thesis by (simp only: f)
    qed
  qed
qed

lemma is_double_fl: "0 \<le> x \<Longrightarrow> is_double (fl x)"
  by (simp add: is_double_def fl_fl)


section \<open>Properties of the proxy pool\<close>

lemma findIndex_Some:
  "findIndex P xs = Some i \<Longrightarrow> i < length xs \<and> P (xs ! i) \<and> (\<forall>j<i. \<not> P (xs ! j))"
proof (induction xs arbitrary: i)
  case Nil
  then show ?case by simp
next
  case (Cons x xs)
  show ?case
  proof (cases "P x")
    case True
    with Cons.prems show ?thesis by simp
  next
    case False
    with Cons.prems obtain k where k: "findIndex P xs = Some k" "i = Suc k" by auto
    from Cons.IH[OF k(1)] have ih: "k < length xs" "P (xs ! k)" "\<forall>j<k. \<not> P (xs ! j)" by auto
    have "\<not> P ((x # xs) ! j)" if "j < Suc k" for j
      using that False ih(3) by (cases j) auto
    with ih k(2) show ?thesis by simp
  qed
qed

lemma findIndex_None: "findIndex P xs = None \<longleftrightarrow> (\<forall>x\<in>set xs. \<not> P x)"
  by (induction xs) auto

lemma updateProxyStats_found:
  assumes "findIndex (same_endpoint p) (proxies pm) = Some i"
  shows "updateProxyStats p ok pm =
     (if next_rate ok (effective_rate (proxies pm ! i)) < d0_2
      then (removeProxy p (pm\<lparr> proxies := (proxies pm)[i := (proxies pm ! i)
              \<lparr> successRate := Some (next_rate ok (effective_rate (proxies pm ! i))) \<rparr>] \<rparr>),
            [RemovingProxy (host p) (port p)])
      else (pm\<lparr> proxies := (proxies pm)[i := (proxies pm ! i)
              \<lparr> successRate := Some (next_rate ok (effective_rate (proxies pm ! i))) \<rparr>] \<rparr>, []))"
proof -
  have code: "(if ok then dadd (dmul (or_default (successRate (proxies pm ! i)) d0_5) d0_9) d0_1
               else dmul (or_default (successRate (proxies pm ! i)) d0_5) d0_9)
             = next_rate ok (effective_rate (proxies pm ! i))"
    by (simp add: next_rate_def effective_rate_def)
  show ?thesis
    by (simp only: updateProxyStats_def assms option.case Let_def code)
qed

text \<open>The three updates below, computed in doubles.\<close>

lemma half_failure: "next_rate False (1 / 2) = 8106479329266893 / 2 ^ 54"
  unfolding next_rate_def dmul_def d0_9_val
  using fl_eval[of 1 "1 / 2 * (8106479329266893 / 2 ^ 53)" 8106479329266893] by simp

lemma near_one_success:
  "next_rate True (9007199254740987 / 2 ^ 53) = 9007199254740987 / 2 ^ 53"
proof -
  have m: "dmul (9007199254740987 / 2 ^ 53) d0_9 = 8106479329266888 / 2 ^ 53"
    unfolding dmul_def d0_9_val
    using fl_eval[of 0 "9007199254740987 / 2 ^ 53 * (8106479329266893 / 2 ^ 53)" 8106479329266888]
    by simp
  have a: "dadd (8106479329266888 / 2 ^ 53) d0_1 = 9007199254740987 / 2 ^ 53"
    unfolding dadd_def d0_1_val
    using fl_eval[of 0 "8106479329266888 / 2 ^ 53 + 3602879701896397 / 2 ^ 55" 9007199254740987]
    by simp
  show ?thesis by (simp only: next_rate_def if_True m a)
qed

lemma rne_tie_odd:
  assumes "odd f"
  shows "rne (of_int f + 1 / 2) = f + 1"
proof -
  have "\<lfloor>(of_int f :: real) + 1 / 2\<rfloor> = f" by (rule floor_unique) simp_all
  then show ?thesis using assms by (simp add: rne_def Let_def)
qed

lemma ninth_value: "fl (1 / 9) = 8006399337547548 / 2 ^ 56"
  using fl_eval[of 3 "1 / 9" 8006399337547548] by simp

lemma ninth_success: "next_rate True (fl (1 / 9)) = d0_2"
proof -
  have m: "dmul (8006399337547548 / 2 ^ 56) d0_9 = 7205759403792793 / 2 ^ 56"
    unfolding dmul_def d0_9_val
    using fl_eval[of 3 "8006399337547548 / 2 ^ 56 * (8106479329266893 / 2 ^ 53)" 7205759403792793]
    by simp
  have t: "(7205759403792793 / 2 ^ 56 + 3602879701896397 / 2 ^ 55) * 2 ^ (2 + 53)
      = (of_int 7205759403792793 + 1 / 2 :: real)" by simp
  have "dadd (7205759403792793 / 2 ^ 56) d0_1
      = of_int (rne (of_int 7205759403792793 + 1 / 2)) / 2 ^ (2 + 53)"
    unfolding dadd_def d0_1_val t[symmetric]
    by (rule fl_binade) simp_all
  also have "\<dots> = of_int (7205759403792793 + 1) / 2 ^ (2 + 53)"
  proof -
    have r: "rne (of_int 7205759403792793 + 1 / 2) = 7205759403792793 + 1"
      by (rule rne_tie_odd) simp
    show ?thesis by (simp only: r)
  qed
  also have "\<dots> = 3602879701896397 / 2 ^ 54" by simp
  finally have a: "dadd (7205759403792793 / 2 ^ 56) d0_1 = 3602879701896397 / 2 ^ 54" .
  show ?thesis by (simp only: next_rate_def if_True ninth_value m a d0_2_val)
qed

text \<open>
  C4, as the claim states it, fails twice. For a proxy in the pool whose score is 0, a
  failure update does not replace the score with \<open>0.9 * 0\<close> nor decrease it: the score
  becomes the double 0.45 (the update starts from 0.5, as for an absent score) and the
  proxy stays in the pool without a warning. For a proxy whose score is the double
  \<open>1 - 5 / 2 ^ 53\<close> (0.9999999999999994), below 1, a success update stores the same
  double again: the score does not increase.
\<close>

theorem updateProxyStats_zero_rate_counterexample:
  "successRate zero_rated_proxy = Some 0
   \<and> map successRate (proxies (fst (updateProxyStats zero_rated_proxy False zero_rated_pool)))
       = [Some (8106479329266893 / 2 ^ 54)]
   \<and> snd (updateProxyStats zero_rated_proxy False zero_rated_pool) = []
   \<and> successRate near_one_proxy = Some (9007199254740987 / 2 ^ 53)
   \<and> map successRate (proxies (fst (updateProxyStats near_one_proxy True near_one_pool)))
       = [Some (9007199254740987 / 2 ^ 53)]"
proof -
  have z0: "findIndex (same_endpoint zero_rated_proxy) (proxies zero_rated_pool) = Some 0"
    by (simp add: zero_rated_pool_def ProxyManager_new_def same_endpoint_def)
  have ze: "effective_rate (proxies zero_rated_pool ! 0) = 1 / 2"
    by (simp add: zero_rated_pool_def ProxyManager_new_def zero_rated_proxy_def
        effective_rate_def or_default_def d0_5_val)
  have zk: "\<not> (8106479329266893 / 2 ^ 54 < d0_2)" by (simp add: d0_2_val)
  have zu: "updateProxyStats zero_rated_proxy False zero_rated_pool =
      (zero_rated_pool\<lparr> proxies := (proxies zero_rated_pool)[0 := (proxies zero_rated_pool ! 0)
          \<lparr> successRate := Some (8106479329266893 / 2 ^ 54) \<rparr>] \<rparr>, [])"
    using zk by (simp only: updateProxyStats_found[OF z0] ze half_failure if_False)
  have n0: "findIndex (same_endpoint near_one_proxy) (proxies near_one_pool) = Some 0"
    by (simp add: near_one_pool_def ProxyManager_new_def same_endpoint_def)
  have ne: "effective_rate (proxies near_one_pool ! 0) = 9007199254740987 / 2 ^ 53"
    by (simp add: near_one_pool_def ProxyManager_new_def near_one_proxy_def
        effective_rate_def or_default_def)
  have nk: "\<not> (9007199254740987 / 2 ^ 53 < d0_2)" by (simp add: d0_2_val)
  have nu: "updateProxyStats near_one_proxy True near_one_pool =
      (near_one_pool\<lparr> proxies := (proxies near_one_pool)[0 := (proxies near_one_pool ! 0)
          \<lparr> successRate := Some (9007199254740987 / 2 ^ 53) \<rparr>] \<rparr>, [])"
    using nk by (simp only: updateProxyStats_found[OF n0] ne near_one_success if_False)
  have a: "successRate zero_rated_proxy = Some 0" by (simp add: zero_rated_proxy_def)
  have b: "map successRate (proxies (fst (updateProxyStats zero_rated_proxy False zero_rated_pool)))
       = [Some (8106479329266893 / 2 ^ 54)]"
    unfolding zu by (simp add: zero_rated_pool_def ProxyManager_new_def)
  have c: "snd (updateProxyStats zero_rated_proxy False zero_rated_pool) = []"
    unfolding zu by simp
  have d: "successRate near_one_proxy = Some (9007199254740987 / 2 ^ 53)"
    by (simp add: near_one_proxy_def)
  have e: "map successRate (proxies (fst (updateProxyStats near_one_proxy True near_one_pool)))
       = [Some (9007199254740987 / 2 ^ 53)]"
    unfolding nu by (simp add: near_one_pool_def ProxyManager_new_def)
  from a b c d e show ?thesis by (intro conjI)
qed

text \<open>
  C4, amended. For a proxy \<open>p\<close> whose host and port match an entry of the pool, the first such
  entry having no score (taken as 0.5) or a score that is a non-zero double in \<open>(0, 1]\<close>:
  \<open>updateProxyStats(p, ok)\<close> computes, in double arithmetic, \<open>score * 0.9 + 0.1\<close> when ok and
  \<open>score * 0.9\<close> when not. The new score is again a double in \<open>(0, 1]\<close>, within \<open>2 powr -52\<close>
  of the exact \<open>0.9 * score + 0.1 * [ok ? 1 : 0]\<close>. A success never lowers the score and
  strictly raises it when the score is at most \<open>1 - 2 powr -49\<close>; a failure never raises
  the score and strictly lowers it when the score is at least \<open>2 powr -1021\<close>. When the new
  score is below the double 0.2 every entry with that host and port is removed and a
  warning is printed; otherwise the new score is stored in that first entry and nothing is
  printed.
\<close>

theorem updateProxyStats_amended:
  assumes idx: "findIndex (same_endpoint p) (proxies pm) = Some i"
    and nz: "successRate (proxies pm ! i) \<noteq> Some 0"
    and dbl: "is_double (effective_rate (proxies pm ! i))"
    and pos: "0 < effective_rate (proxies pm ! i)"
    and le1: "effective_rate (proxies pm ! i) \<le> 1"
  shows "i < length (proxies pm) \<and> same_endpoint p (proxies pm ! i)
       \<and> (\<forall>j<i. \<not> same_endpoint p (proxies pm ! j))
       \<and> is_double (next_rate ok (effective_rate (proxies pm ! i)))
       \<and> 0 < next_rate ok (effective_rate (proxies pm ! i))
       \<and> next_rate ok (effective_rate (proxies pm ! i)) \<le> 1
       \<and> \<bar>next_rate ok (effective_rate (proxies pm ! i))
            - spec_next_score ok (effective_rate (proxies pm ! i))\<bar> \<le> 1 / 2 ^ 52
       \<and> (ok \<longrightarrow> effective_rate (proxies pm ! i) \<le> next_rate ok (effective_rate (proxies pm ! i)))
       \<and> (ok \<and> effective_rate (proxies pm ! i) \<le> 1 - 1 / 2 ^ 49
            \<longrightarrow> effective_rate (proxies pm ! i) < next_rate ok (effective_rate (proxies pm ! i)))
       \<and> (\<not> ok \<longrightarrow> next_rate ok (effective_rate (proxies pm ! i)) \<le> effective_rate (proxies pm ! i))
       \<and> (\<not> ok \<and> 1 / 2 ^ 1021 \<le> effective_rate (proxies pm ! i)
            \<longrightarrow> next_rate ok (effective_rate (proxies pm ! i)) < effective_rate (proxies pm ! i))
       \<and> (next_rate ok (effective_rate (proxies pm ! i)) < d0_2 \<longrightarrow>
            updateProxyStats p ok pm =
              (pm\<lparr> proxies := filter (\<lambda>q. \<not> same_endpoint p q) (proxies pm) \<rparr>,
               [RemovingProxy (host p) (port p)]))
       \<and> (\<not> next_rate ok (effective_rate (proxies pm ! i)) < d0_2 \<longrightarrow>
            updateProxyStats p ok pm =
              (pm\<lparr> proxies := (proxies pm)[i := (proxies pm ! i)
                   \<lparr> successRate := Some (next_rate ok (effective_rate (proxies pm ! i))) \<rparr>] \<rparr>,
               []))"
proof -
  let ?e = "effective_rate (proxies pm ! i)"
  let ?new = "next_rate ok ?e"
  from findIndex_Some[OF idx]
  have fi: "i < length (proxies pm)" "same_endpoint p (proxies pm ! i)"
    "\<forall>j<i. \<not> same_endpoint p (proxies pm ! j)" by auto
  have e0: "0 \<le> ?e" using pos by simp
  have rng: "?new \<le> 1" using next_rate_range(2)[OF e0 le1] .
  have near: "\<bar>?new - spec_next_score ok ?e\<bar> \<le> 1 / 2 ^ 52"
    using next_rate_near_spec[OF e0 le1] .
  have m0: "0 \<le> ?e * d0_9" using e0 by (simp add: d0_9_val)
  have d0: "0 \<le> dmul ?e d0_9" using fail_range(1)[OF e0 le1] .
  have dbl': "is_double ?new"
  proof (cases ok)
    case True
    have "0 \<le> dmul ?e d0_9 + d0_1" using d0 by (simp add: d0_1_val)
    then have "is_double (fl (dmul ?e d0_9 + d0_1))" by (rule is_double_fl)
    then show ?thesis using True by (simp add: next_rate_def dadd_def)
  next
    case False
    from m0 have "is_double (fl (?e * d0_9))" by (rule is_double_fl)
    then show ?thesis using False by (simp add: next_rate_def dmul_def)
  qed
  have up: "ok \<longrightarrow> ?e \<le> ?new"
    using success_le[OF dbl e0 le1] by (simp add: next_rate_def)
  have ups: "ok \<and> ?e \<le> 1 - 1 / 2 ^ 49 \<longrightarrow> ?e < ?new"
  proof
    assume a: "ok \<and> ?e \<le> 1 - 1 / 2 ^ 49"
    then have "?e \<le> 1 - 1 / 2 ^ 49" by simp
    from success_lt[OF e0 this] a show "?e < ?new" by (simp add: next_rate_def)
  qed
  have down: "\<not> ok \<longrightarrow> ?new \<le> ?e"
    using fail_le(1)[OF dbl pos] by (simp add: next_rate_def)
  have downs: "\<not> ok \<and> 1 / 2 ^ 1021 \<le> ?e \<longrightarrow> ?new < ?e"
  proof
    assume a: "\<not> ok \<and> 1 / 2 ^ 1021 \<le> ?e"
    have "(2::real) powr of_int (- int 1021) = 1 / 2 ^ 1021" by (rule two_powr_neg_nat)
    moreover have "- int 1021 = - 1021" by simp
    ultimately have "(2::real) powr of_int (- 1021) = 1 / 2 ^ 1021" by (simp only:)
    with a have "2 powr of_int (- 1021) \<le> ?e" by (simp only:)
    from fail_lt[OF this] a show "?new < ?e" by (simp add: next_rate_def)
  qed
  have gt0: "0 < ?new"
  proof (cases ok)
    case True
    with up pos show ?thesis by simp
  next
    case False
    with fail_le(2)[OF dbl pos] show ?thesis by (simp add: next_rate_def)
  qed
  have filt: "filter (\<lambda>q. \<not> same_endpoint p q)
        ((proxies pm)[i := (proxies pm ! i)\<lparr> successRate := Some ?new \<rparr>])
      = filter (\<lambda>q. \<not> same_endpoint p q) (proxies pm)"
  proof -
    have a: "(proxies pm)[i := (proxies pm ! i)\<lparr> successRate := Some ?new \<rparr>]
        = take i (proxies pm) @ (proxies pm ! i)\<lparr> successRate := Some ?new \<rparr>
            # drop (Suc i) (proxies pm)"
      using fi(1) by (simp add: upd_conv_take_nth_drop)
    have b: "proxies pm = take i (proxies pm) @ (proxies pm ! i) # drop (Suc i) (proxies pm)"
      using fi(1) by (simp add: id_take_nth_drop[symmetric])
    have c: "same_endpoint p ((proxies pm ! i)\<lparr> successRate := Some ?new \<rparr>)"
      using fi(2) by (simp add: same_endpoint_def)
    have "filter (\<lambda>q. \<not> same_endpoint p q)
        ((proxies pm)[i := (proxies pm ! i)\<lparr> successRate := Some ?new \<rparr>])
        = filter (\<lambda>q. \<not> same_endpoint p q) (take i (proxies pm))
          @ filter (\<lambda>q. \<not> same_endpoint p q) (drop (Suc i) (proxies pm))"
      by (subst a) (simp add: c)
    also have "\<dots> = filter (\<lambda>q. \<not> same_endpoint p q)
        (take i (proxies pm) @ (proxies pm ! i) # drop (Suc i) (proxies pm))"
      by (simp add: fi(2))
    also have "\<dots> = filter (\<lambda>q. \<not> same_endpoint p q) (proxies pm)"
      using b by simp
    finally show ?thesis .
  qed
  have rem: "?new < d0_2 \<longrightarrow> updateProxyStats p ok pm =
              (pm\<lparr> proxies := filter (\<lambda>q. \<not> same_endpoint p q) (proxies pm) \<rparr>,
               [RemovingProxy (host p) (port p)])"
    using filt by (simp add: updateProxyStats_found[OF idx] removeProxy_def)
  have keep: "\<not> ?new < d0_2 \<longrightarrow> updateProxyStats p ok pm =
              (pm\<lparr> proxies := (proxies pm)[i := (proxies pm ! i)\<lparr> successRate := Some ?new \<rparr>] \<rparr>, [])"
    by (simp add: updateProxyStats_found[OF idx])
  from fi dbl' gt0 rng near up ups down downs rem keep show ?thesis by (intro conjI)
qed

text \<open>
  The witness: the second proxy of the pool has the double nearest to 1/9 as its score. In
  a success update the product rounds to \<open>7205759403792793 / 2 ^ 56\<close> and the sum with the
  double 0.1 falls halfway between two doubles; the tie goes to the even one, which is the
  double 0.2. That is not below 0.2: the proxy stays, with that score, and nothing is
  printed.
\<close>

theorem updateProxyStats_amended_witness:
  "findIndex (same_endpoint ninth_proxy) (proxies ninth_pool) = Some (Suc 0)
   \<and> successRate (proxies ninth_pool ! Suc 0) \<noteq> Some 0
   \<and> is_double (effective_rate (proxies ninth_pool ! Suc 0))
   \<and> 0 < effective_rate (proxies ninth_pool ! Suc 0)
   \<and> effective_rate (proxies ninth_pool ! Suc 0) \<le> 1
   \<and> map successRate (proxies (fst (updateProxyStats ninth_proxy True ninth_pool)))
       = [Some 0, Some d0_2]
   \<and> snd (updateProxyStats ninth_proxy True ninth_pool) = []"
proof -
  have ps: "proxies ninth_pool = [zero_rated_proxy, ninth_proxy]"
    by (simp add: ninth_pool_def ProxyManager_new_def)
  have h1: "findIndex (same_endpoint ninth_proxy) (proxies ninth_pool) = Some (Suc 0)"
    by (simp add: ps ninth_proxy_def zero_rated_proxy_def same_endpoint_def)
  have sr: "successRate (proxies ninth_pool ! Suc 0) = Some (fl (1 / 9))"
    by (simp add: ps ninth_proxy_def)
  have nn: "fl (1 / 9) \<noteq> 0" by (simp add: ninth_value)
  have e: "effective_rate (proxies ninth_pool ! Suc 0) = fl (1 / 9)"
    using nn by (simp add: effective_rate_def sr or_default_def)
  have h0: "successRate (proxies ninth_pool ! Suc 0) \<noteq> Some 0"
    using nn by (simp add: sr)
  have hd: "is_double (effective_rate (proxies ninth_pool ! Suc 0))"
    unfolding e by (rule is_double_fl) simp
  have h2: "0 < effective_rate (proxies ninth_pool ! Suc 0)"
    by (simp add: e ninth_value)
  have h3: "effective_rate (proxies ninth_pool ! Suc 0) \<le> 1"
    by (simp add: e ninth_value)
  have v: "next_rate True (effective_rate (proxies ninth_pool ! Suc 0)) = d0_2"
    by (simp only: e ninth_success)
  have n: "\<not> next_rate True (effective_rate (proxies ninth_pool ! Suc 0)) < d0_2"
    by (simp add: v)
  from updateProxyStats_amended[OF h1 h0 hd h2 h3, of True] n
  have "updateProxyStats ninth_proxy True ninth_pool =
      (ninth_pool\<lparr> proxies := (proxies ninth_pool)[Suc 0 := (proxies ninth_pool ! Suc 0)
          \<lparr> successRate := Some (next_rate True (effective_rate (proxies ninth_pool ! Suc 0))) \<rparr>] \<rparr>, [])"
    by blast
  then have "updateProxyStats ninth_proxy True ninth_pool =
      (ninth_pool\<lparr> proxies := (proxies ninth_pool)[Suc 0 := (proxies ninth_pool ! Suc 0)
          \<lparr> successRate := Some d0_2 \<rparr>] \<rparr>, [])"
    by (simp only: v)
  then have "map successRate (proxies (fst (updateProxyStats ninth_proxy True ninth_pool)))
       = [Some 0, Some d0_2]" "snd (updateProxyStats ninth_proxy True ninth_pool) = []"
    by (simp_all add: ps zero_rated_proxy_def)
  with h1 h0 hd h2 h3 show ?thesis by simp
qed


section \<open>Properties of the generated identity\<close>

lemma random_index_less:
  assumes "unit_draw r" "xs \<noteq> []"
  shows "random_index r xs < length xs"
proof -
  from assms(1) have r: "0 \<le> r" "r < 1" by (simp_all add: unit_draw_def)
  from assms(2) have pos: "0 < real (length xs)" by simp
  have "r * real (length xs) < real (length xs)" using r(2) pos by simp
  then have "\<lfloor>r * real (length xs)\<rfloor> < int (length xs)" by (simp add: floor_less_iff)
  moreover have "0 \<le> \<lfloor>r * real (length xs)\<rfloor>" using r(1) by simp
  ultimately show ?thesis by (simp add: random_index_def nat_less_iff)
qed

lemma randomElement_Some:
  assumes "unit_draw r" "xs \<noteq> []"
  shows "\<exists>x. randomElement xs r = Some x"
  using random_index_less[OF assms] by (simp add: randomElement_def js_nth_def)

lemma randomElement_mem: "randomElement xs r = Some x \<Longrightarrow> x \<in> set xs"
  by (auto simp: randomElement_def js_nth_def split: if_splits)

lemma js_nth_mem: "js_nth xs i = Some x \<Longrightarrow> x \<in> set xs"
  by (auto simp: js_nth_def split: if_splits)

lemma js_nth_0: "xs \<noteq> [] \<Longrightarrow> \<exists>x. js_nth xs 0 = Some x"
  by (simp add: js_nth_def)

lemma randomInt_range:
  assumes "unit_draw r" "lo \<le> hi"
  shows "lo \<le> randomInt lo hi r" "randomInt lo hi r \<le> hi"
proof -
  define k where "k = hi - lo + 1"
  from assms(1) have r: "0 \<le> r" "r < 1" by (simp_all add: unit_draw_def)
  have pos: "0 < real_of_int k" using assms(2) by (simp add: k_def)
  have "0 \<le> r * real_of_int k" using r(1) pos by simp
  then have lo: "0 \<le> \<lfloor>r * real_of_int k\<rfloor>" by simp
  have "r * real_of_int k < real_of_int k" using r(2) pos by simp
  then have hi: "\<lfloor>r * real_of_int k\<rfloor> < k" by (simp only: floor_less_iff)
  have eq: "randomInt lo hi r = \<lfloor>r * real_of_int k\<rfloor> + lo"
    by (simp only: randomInt_def k_def)
  show "lo \<le> randomInt lo hi r" using lo by (simp add: eq)
  show "randomInt lo hi r \<le> hi" using hi unfolding eq by (simp add: k_def)
qed

lemma generateFontList_subset: "set (generateFontList cfg rnd fs) \<subseteq> set fs"
  by (auto simp: generateFontList_def Let_def dest: set_zip_rightD)

lemma generatePluginList_subset:
  assumes "mset (pluginShuffle rnd ps) = mset ps"
  shows "set (generatePluginList cfg rnd ps) \<subseteq> set ps"
proof -
  have "set (pluginShuffle rnd ps) = set ps" using assms by (rule mset_eq_setD)
  then show ?thesis
    by (auto simp: generatePluginList_def slice0_def Let_def dest: in_set_takeD)
qed

lemma generate_SomeD:
  assumes "generate cfg rnd = Some fp"
  obtains p where
    "(if spoofPlatform cfg then randomElement platformProfiles (rPlatform rnd)
      else js_nth platformProfiles 0) = Some p"
    "(if randomizeUserAgent cfg then randomElement (userAgents p) (rUserAgent rnd)
      else js_nth (userAgents p) 0) = Some (userAgent fp)"
    "(if randomizeViewport cfg then randomElement (screenResolutions p) (rViewport rnd)
      else js_nth (screenResolutions p) 0) = Some (viewport fp)"
    "(if randomizeLocale cfg then randomElement locales (rLocale rnd)
      else js_nth locales 0) = Some (language fp)"
    "(if randomizeTimezone cfg then randomElement timezones (rTimezone rnd)
      else js_nth timezones 0) = Some (timezone fp)"
    "(if spoofDeviceMemory cfg then randomElement (deviceMemory p) (rMemory rnd)
      else js_nth (deviceMemory p) 0) = Some (fp_deviceMemory fp)"
    "randomElement (webglRenderers p) (rWebgl rnd) = Some (webglRenderer fp)"
    "fp_hardwareConcurrency fp = (if spoofHardwareConcurrency cfg
               then randomInt (hmin (hardwareConcurrency p)) (hmax (hardwareConcurrency p)) (rHardware rnd)
               else hmin (hardwareConcurrency p))"
    "fp_fonts fp = (if randomizeFonts cfg then generateFontList cfg rnd (fonts p) else fonts p)"
    "fp_plugins fp = (if spoofPlugins cfg then generatePluginList cfg rnd (plugins p) else plugins p)"
    "fp_platform fp = platform p" "fp_vendor fp = vendor p"
  using assms unfolding generate_def Let_def
  by (auto simp: bind_eq_Some_conv)

lemma profiles_nonempty:
  assumes "p \<in> set platformProfiles"
  shows "userAgents p \<noteq> []" "screenResolutions p \<noteq> []" "deviceMemory p \<noteq> []"
    "webglRenderers p \<noteq> []" "hmin (hardwareConcurrency p) \<le> hmax (hardwareConcurrency p)"
  using assms
  by (auto simp: platformProfiles_def windowsProfile_def macProfile_def linuxProfile_def)

lemma platformProfiles_nonempty: "platformProfiles \<noteq> []"
  by (simp add: platformProfiles_def)

lemma pick_Some:
  assumes "unit_draw r" "xs \<noteq> []"
  shows "\<exists>x. (if b then randomElement xs r else js_nth xs 0) = Some x"
  using randomElement_Some[OF assms] js_nth_0[OF assms(2)] by (cases b) auto

lemma pick_mem: "(if b then randomElement xs r else js_nth xs 0) = Some x \<Longrightarrow> x \<in> set xs"
  by (cases b) (auto dest: randomElement_mem js_nth_mem)

lemma generate_total:
  assumes v: "valid_random rnd"
  shows "\<exists>fp. generate cfg rnd = Some fp"
proof -
  from v have d: "unit_draw (rPlatform rnd)" "unit_draw (rUserAgent rnd)"
    "unit_draw (rViewport rnd)" "unit_draw (rLocale rnd)" "unit_draw (rTimezone rnd)"
    "unit_draw (rMemory rnd)" "unit_draw (rWebgl rnd)"
    by (simp_all add: valid_random_def)
  from pick_Some[OF d(1) platformProfiles_nonempty] obtain p where
    p: "(if spoofPlatform cfg then randomElement platformProfiles (rPlatform rnd)
         else js_nth platformProfiles 0) = Some p" by blast
  from pick_mem[OF p] have pin: "p \<in> set platformProfiles" .
  from pick_Some[OF d(2) profiles_nonempty(1)[OF pin]] obtain ua where
    ua: "(if randomizeUserAgent cfg then randomElement (userAgents p) (rUserAgent rnd)
          else js_nth (userAgents p) 0) = Some ua" by blast
  from pick_Some[OF d(3) profiles_nonempty(2)[OF pin]] obtain vp where
    vp: "(if randomizeViewport cfg then randomElement (screenResolutions p) (rViewport rnd)
          else js_nth (screenResolutions p) 0) = Some vp" by blast
  have "locales \<noteq> []" "timezones \<noteq> []" by (simp_all add: locales_def timezones_def)
  from pick_Some[OF d(4) this(1)] pick_Some[OF d(5) this(2)] obtain lang tz where
    lt: "(if randomizeLocale cfg then randomElement locales (rLocale rnd)
          else js_nth locales 0) = Some lang"
        "(if randomizeTimezone cfg then randomElement timezones (rTimezone rnd)
          else js_nth timezones 0) = Some tz" by blast
  from pick_Some[OF d(6) profiles_nonempty(3)[OF pin]] obtain dm where
    dm: "(if spoofDeviceMemory cfg then randomElement (deviceMemory p) (rMemory rnd)
          else js_nth (deviceMemory p) 0) = Some dm" by blast
  from randomElement_Some[OF d(7) profiles_nonempty(4)[OF pin]] obtain wr where
    wr: "randomElement (webglRenderers p) (rWebgl rnd) = Some wr" by blast
  show ?thesis
    unfolding generate_def Let_def by (simp add: p ua vp lt dm wr)
qed

lemma generate_drawn:
  assumes v: "valid_random rnd" and g: "generate cfg rnd = Some fp"
  shows "\<exists>p. p \<in> set platformProfiles \<and> drawn_from p fp"
proof -
  from g obtain p where
    p: "(if spoofPlatform cfg then randomElement platformProfiles (rPlatform rnd)
      else js_nth platformProfiles 0) = Some p"
    and ua: "(if randomizeUserAgent cfg then randomElement (userAgents p) (rUserAgent rnd)
      else js_nth (userAgents p) 0) = Some (userAgent fp)"
    and vp: "(if randomizeViewport cfg then randomElement (screenResolutions p) (rViewport rnd)
      else js_nth (screenResolutions p) 0) = Some (viewport fp)"
    and dm: "(if spoofDeviceMemory cfg then randomElement (deviceMemory p) (rMemory rnd)
      else js_nth (deviceMemory p) 0) = Some (fp_deviceMemory fp)"
    and wr: "randomElement (webglRenderers p) (rWebgl rnd) = Some (webglRenderer fp)"
    and hc: "fp_hardwareConcurrency fp = (if spoofHardwareConcurrency cfg
               then randomInt (hmin (hardwareConcurrency p)) (hmax (hardwareConcurrency p)) (rHardware rnd)
               else hmin (hardwareConcurrency p))"
    and fs: "fp_fonts fp = (if randomizeFonts cfg then generateFontList cfg rnd (fonts p) else fonts p)"
    and pl: "fp_plugins fp = (if spoofPlugins cfg then generatePluginList cfg rnd (plugins p) else plugins p)"
    and nm: "fp_platform fp = platform p" "fp_vendor fp = vendor p"
    by (rule generate_SomeD)
  from pick_mem[OF p] have pin: "p \<in> set platformProfiles" .
  from v have hd: "unit_draw (rHardware rnd)" and sh: "mset (pluginShuffle rnd (plugins p)) = mset (plugins p)"
    by (simp_all add: valid_random_def)
  have 1: "userAgent fp \<in> set (userAgents p)" using pick_mem[OF ua] .
  have 2: "viewport fp \<in> set (screenResolutions p)" using pick_mem[OF vp] .
  have 3: "fp_deviceMemory fp \<in> set (deviceMemory p)" using pick_mem[OF dm] .
  have 4: "webglRenderer fp \<in> set (webglRenderers p)" using randomElement_mem[OF wr] .
  have 5: "hmin (hardwareConcurrency p) \<le> fp_hardwareConcurrency fp"
    "fp_hardwareConcurrency fp \<le> hmax (hardwareConcurrency p)"
    using randomInt_range[OF hd profiles_nonempty(5)[OF pin]] profiles_nonempty(5)[OF pin]
    by (simp_all add: hc)
  have 6: "set (fp_fonts fp) \<subseteq> set (fonts p)"
    using generateFontList_subset[of cfg rnd "fonts p"] by (simp add: fs)
  have 7: "set (fp_plugins fp) \<subseteq> set (plugins p)"
    using generatePluginList_subset[OF sh, of cfg] by (simp add: pl)
  have "drawn_from p fp"
    unfolding drawn_from_def using nm 1 2 3 4 5 6 7 by (intro conjI)
  with pin show ?thesis by blast
qed

lemma valid_mac_draws: "valid_random mac_draws"
  by (simp add: valid_random_def mac_draws_def unit_draw_def)

lemma mac_generate:
  assumes "generate all_random mac_draws = Some fp"
  shows "fp_platform fp = ''MacIntel''" "language fp = ''ja-JP''" "timezone fp = ''America/Chicago''"
proof -
  from assms obtain p where
    p: "(if spoofPlatform all_random then randomElement platformProfiles (rPlatform mac_draws)
      else js_nth platformProfiles 0) = Some p"
    and l: "(if randomizeLocale all_random then randomElement locales (rLocale mac_draws)
      else js_nth locales 0) = Some (language fp)"
    and t: "(if randomizeTimezone all_random then randomElement timezones (rTimezone mac_draws)
      else js_nth timezones 0) = Some (timezone fp)"
    and nm: "fp_platform fp = platform p"
    by (rule generate_SomeD)
  from p have "p = macProfile"
    by (simp add: all_random_def mac_draws_def randomElement_def random_index_def js_nth_def platformProfiles_def)
  then show "fp_platform fp = ''MacIntel''" using nm by (simp add: macProfile_def)
  from l show "language fp = ''ja-JP''"
    by (simp add: all_random_def mac_draws_def randomElement_def random_index_def js_nth_def locales_def)
  from t show "timezone fp = ''America/Chicago''"
    by (simp add: all_random_def mac_draws_def randomElement_def random_index_def js_nth_def timezones_def)
qed

text \<open>
  C5, amended. For every identity \<open>generate\<close> produces, there is one platform record from
  which the platform name, the vendor, the user agent, the viewport resolution, the fonts,
  the plugins, the WebGL vendor and renderer, the hardware concurrency and the device memory
  all come. The TLS profile is no part of the identity: the session manager uses the profile
  \<open>chrome-120-windows\<close> for every session.
\<close>

theorem generate_platform_correlated:
  assumes "valid_random rnd"
  shows "\<exists>p fp. p \<in> set platformProfiles \<and> generate cfg rnd = Some fp \<and> drawn_from p fp
           \<and> tlsProfile (SessionManager_new scfg maxS now) = ''chrome-120-windows''"
proof -
  from generate_total[OF assms] obtain fp where g: "generate cfg rnd = Some fp" by blast
  from generate_drawn[OF assms g] obtain p where "p \<in> set platformProfiles" "drawn_from p fp"
    by blast
  moreover have "tlsProfile (SessionManager_new scfg maxS now) = ''chrome-120-windows''"
    by (simp add: SessionManager_new_def)
  ultimately show ?thesis using g by blast
qed

theorem generate_platform_correlated_witness:
  "valid_random mac_draws
   \<and> (\<exists>p fp. p \<in> set platformProfiles \<and> generate all_random mac_draws = Some fp
         \<and> drawn_from p fp
         \<and> tlsProfile (SessionManager_new plain_config 10 0) = ''chrome-120-windows'')"
  using valid_mac_draws generate_platform_correlated[OF valid_mac_draws] by blast

text \<open>
  C5, as the claim states it, fails for the TLS profile: an identity generated for the
  platform \<open>MacIntel\<close> is used in a session whose TLS profile is \<open>chrome-120-windows\<close>
  (\<open>Chrome 120 on Windows\<close>), a value that is in no property of the macOS platform record.
\<close>

theorem tls_profile_not_from_platform_counterexample:
  "map_option fp_platform (generate all_random mac_draws) = Some ''MacIntel''
   \<and> tlsProfile (SessionManager_new plain_config 10 0) = ''chrome-120-windows''
   \<and> map_of TLS_HTTP2_PROFILES ''chrome-120-windows'' = Some ''Chrome 120 on Windows''
   \<and> ''chrome-120-windows'' \<notin> set (profile_strings macProfile)"
proof -
  from generate_total[OF valid_mac_draws] obtain fp where g: "generate all_random mac_draws = Some fp"
    by blast
  have 1: "map_option fp_platform (generate all_random mac_draws) = Some ''MacIntel''"
    using mac_generate(1)[OF g] by (simp add: g)
  have 2: "tlsProfile (SessionManager_new plain_config 10 0) = ''chrome-120-windows''"
    by (simp add: SessionManager_new_def)
  have 3: "map_of TLS_HTTP2_PROFILES ''chrome-120-windows'' = Some ''Chrome 120 on Windows''"
    by (simp add: TLS_HTTP2_PROFILES_def)
  have 4: "''chrome-120-windows'' \<notin> set (profile_strings macProfile)"
    by (simp add: profile_strings_def macProfile_def)
  from 1 2 3 4 show ?thesis by (intro conjI)
qed

text \<open>
  C8, as the claim states it, fails: with every randomization on, \<open>generate\<close> produces an
  identity with the locale \<open>ja-JP\<close> and the timezone \<open>America/Chicago\<close>; the mapping table
  gives \<open>Asia/Tokyo\<close> for that locale and the validation helper rejects the pair.
\<close>

theorem locale_timezone_mismatch_counterexample:
  "map_option language (generate all_random mac_draws) = Some ''ja-JP''
   \<and> map_option timezone (generate all_random mac_draws) = Some ''America/Chicago''
   \<and> map_of LOCALE_TO_COMMON_TIMEZONE ''ja-JP'' = Some ''Asia/Tokyo''
   \<and> \<not> validateConsistency 0 ''America/Chicago'' ''ja-JP''"
proof -
  from generate_total[OF valid_mac_draws] obtain fp where g: "generate all_random mac_draws = Some fp"
    by blast
  have 1: "map_option language (generate all_random mac_draws) = Some ''ja-JP''"
    using mac_generate(2)[OF g] by (simp add: g)
  have 2: "map_option timezone (generate all_random mac_draws) = Some ''America/Chicago''"
    using mac_generate(3)[OF g] by (simp add: g)
  have 3: "map_of LOCALE_TO_COMMON_TIMEZONE ''ja-JP'' = Some ''Asia/Tokyo''"
    by (simp add: LOCALE_TO_COMMON_TIMEZONE_def)
  have 4: "getLocaleForTimezone ''America/Chicago'' = ''en-US''"
    by (simp add: getLocaleForTimezone_def LOCALE_TO_COMMON_TIMEZONE_def)
  have 5: "getTimezoneForLocale 0 ''ja-JP'' = Some ''Asia/Tokyo''"
    by (simp add: getTimezoneForLocale_def 3 Let_def)
  have 6: "\<not> validateConsistency 0 ''America/Chicago'' ''ja-JP''"
    by (simp add: validateConsistency_def 4 5 Let_def)
  from 1 2 3 6 show ?thesis by (intro conjI)
qed

text \<open>
  C8, amended. The locale of a generated identity is one of the configured locales and its
  timezone one of the configured timezones, each chosen by its own draw and by nothing else;
  when neither is randomized the identity has \<open>en-US\<close> with \<open>America/New_York\<close>, a pair
  the mapping table accepts.
\<close>

theorem generate_locale_timezone_separate:
  assumes "valid_random rnd"
  shows "\<exists>fp. generate cfg rnd = Some fp
           \<and> language fp \<in> set locales \<and> timezone fp \<in> set timezones
           \<and> Some (language fp) = (if randomizeLocale cfg
                                    then randomElement locales (rLocale rnd)
                                    else js_nth locales 0)
           \<and> Some (timezone fp) = (if randomizeTimezone cfg
                                    then randomElement timezones (rTimezone rnd)
                                    else js_nth timezones 0)
           \<and> (\<not> randomizeLocale cfg \<and> \<not> randomizeTimezone cfg \<longrightarrow>
                language fp = ''en-US'' \<and> timezone fp = ''America/New_York''
                \<and> validateConsistency r (timezone fp) (language fp))"
proof -
  from generate_total[OF assms] obtain fp where g: "generate cfg rnd = Some fp" by blast
  from g obtain p where
    l: "(if randomizeLocale cfg then randomElement locales (rLocale rnd)
      else js_nth locales 0) = Some (language fp)"
    and t: "(if randomizeTimezone cfg then randomElement timezones (rTimezone rnd)
      else js_nth timezones 0) = Some (timezone fp)"
    by (rule generate_SomeD)
  have v: "validateConsistency r ''America/New_York'' ''en-US''"
    by (simp add: validateConsistency_def getLocaleForTimezone_def
        LOCALE_TO_COMMON_TIMEZONE_def Let_def)
  have fixed: "language fp = ''en-US'' \<and> timezone fp = ''America/New_York''
                \<and> validateConsistency r (timezone fp) (language fp)"
    if "\<not> randomizeLocale cfg \<and> \<not> randomizeTimezone cfg"
  proof -
    from l that have "language fp = ''en-US''" by (simp add: js_nth_def locales_def)
    moreover from t that have "timezone fp = ''America/New_York''"
      by (simp add: js_nth_def timezones_def)
    ultimately show ?thesis using v by simp
  qed
  from pick_mem[OF l] pick_mem[OF t] l t fixed g show ?thesis by auto
qed

theorem generate_locale_timezone_separate_witness:
  "valid_random mac_draws
   \<and> map_option language (generate nothing_random mac_draws) = Some ''en-US''
   \<and> map_option timezone (generate nothing_random mac_draws) = Some ''America/New_York''
   \<and> validateConsistency 0 ''America/New_York'' ''en-US''"
proof -
  have n: "\<not> randomizeLocale nothing_random \<and> \<not> randomizeTimezone nothing_random"
    by (simp add: nothing_random_def)
  from generate_locale_timezone_separate[OF valid_mac_draws, of nothing_random 0] n
  obtain fp where "generate nothing_random mac_draws = Some fp"
    "language fp = ''en-US''" "timezone fp = ''America/New_York''"
    "validateConsistency 0 (timezone fp) (language fp)" by blast
  then show ?thesis using valid_mac_draws by simp
qed


section \<open>Properties of the session pool\<close>

lemma oldest_step_pair:
  "oldest_step (ov, t) s = (if startTime s < t then (Some s, startTime s) else (ov, t))"
  by (simp add: oldest_step_def)

lemma oldest_fold:
  "foldl oldest_step (ov, t) ss = (ov', t') \<Longrightarrow>
     (\<forall>s\<in>set ss. t' \<le> startTime s) \<and> t' \<le> t
     \<and> ((ov' = ov \<and> t' = t) \<or> (\<exists>v\<in>set ss. ov' = Some v \<and> startTime v = t' \<and> t' < t))"
proof (induction ss arbitrary: ov t)
  case Nil
  then show ?case by simp
next
  case (Cons s ss)
  show ?case
  proof (cases "startTime s < t")
    case True
    with Cons.prems have "foldl oldest_step (Some s, startTime s) ss = (ov', t')"
      by (simp add: oldest_step_pair)
    from Cons.IH[OF this] True show ?thesis by auto
  next
    case False
    with Cons.prems have "foldl oldest_step (ov, t) ss = (ov', t')"
      by (simp add: oldest_step_pair)
    from Cons.IH[OF this] False show ?thesis by auto
  qed
qed

lemma length_map_delete:
  "distinct (map fst m) \<Longrightarrow> k \<in> fst ` set m \<Longrightarrow> Suc (length (map_delete k m)) = length m"
proof (induction m)
  case Nil
  then show ?case by simp
next
  case (Cons a m)
  obtain k' v' where a: "a = (k', v')" by (cases a)
  show ?case
  proof (cases "k' = k")
    case True
    with Cons.prems(1) a have "k \<notin> fst ` set m" by auto
    then have "\<forall>x\<in>set m. fst x \<noteq> k" by force
    then have "map_delete k m = m" by (auto simp: map_delete_def filter_id_conv)
    with True a show ?thesis by (simp add: map_delete_def)
  next
    case False
    with Cons.prems a have "k \<in> fst ` set m" "distinct (map fst m)" by auto
    from Cons.IH[OF this(2,1)] False a show ?thesis by (simp add: map_delete_def)
  qed
qed

lemma map_set_fresh: "k \<notin> fst ` set m \<Longrightarrow> map_set k v m = m @ [(k, v)]"
  by (simp add: map_set_def)

lemma keys_map_delete: "fst ` set (map_delete k m) = fst ` set m - {k}"
  by (auto simp: map_delete_def image_iff)

lemma distinct_map_delete: "distinct (map fst m) \<Longrightarrow> distinct (map fst (map_delete k m))"
  by (simp add: map_delete_def distinct_map_filter)

lemma cleanup_victim:
  assumes ok: "pool_ok sm" and old: "\<exists>s\<in>snd ` set (sessions sm). startTime s < now"
  shows "\<exists>v. v \<in> snd ` set (sessions sm) \<and> sid v \<in> fst ` set (sessions sm)
            \<and> (\<forall>s\<in>snd ` set (sessions sm). startTime v \<le> startTime s)
            \<and> cleanupOldestSession now sm = sm\<lparr> sessions := map_delete (sid v) (sessions sm) \<rparr>"
proof -
  obtain ov t where f: "foldl oldest_step (None, now) (map snd (sessions sm)) = (ov, t)"
    by (cases "foldl oldest_step (None, now) (map snd (sessions sm))")
  from oldest_fold[OF f]
  have mn: "\<forall>s\<in>snd ` set (sessions sm). t \<le> startTime s"
    and alt: "(ov = None \<and> t = now) \<or> (\<exists>v\<in>snd ` set (sessions sm). ov = Some v \<and> startTime v = t \<and> t < now)"
    by auto
  from old mn alt obtain v where v: "v \<in> snd ` set (sessions sm)" "ov = Some v" "startTime v = t"
    by fastforce
  from v(1) obtain k where k: "(k, v) \<in> set (sessions sm)" by auto
  with ok have "sid v = k" by (auto simp: pool_ok_def list_all_iff)
  with k have key: "sid v \<in> fst ` set (sessions sm)" by force
  then have "map_of (sessions sm) (sid v) \<noteq> None" by (simp add: map_of_eq_None_iff)
  then have "closeSession (sid v) sm = sm\<lparr> sessions := map_delete (sid v) (sessions sm) \<rparr>"
    by (auto simp: closeSession_def)
  then have "cleanupOldestSession now sm = sm\<lparr> sessions := map_delete (sid v) (sessions sm) \<rparr>"
    by (simp add: cleanupOldestSession_def f v(2))
  with v key mn show ?thesis by auto
qed

lemma createSession_fields:
  "sessions (snd (createSession options env sm))
     = map_set (uuid env) (fst (createSession options env sm))
         (sessions (if length (sessions sm) \<ge> maxSessions sm
                    then cleanupOldestSession (nowCleanup env) sm else sm))"
  "sid (fst (createSession options env sm)) = uuid env"
  "startTime (fst (createSession options env sm)) = nowStart env"
  "fingerprint (fst (createSession options env sm)) = generated env"
  by (simp_all add: createSession_def Let_def split: prod.splits option.splits)

text \<open>
  C3, amended. \<open>createSession\<close>, called by one caller at a time with a fresh identifier on a
  pool whose entries are stored under their own distinct identifiers, never blocks. Below
  capacity it adds the new session and the pool stays within \<open>maxSessions\<close>. At capacity,
  when some session started before the clock value the cleanup reads, it closes a session
  with the earliest \<open>startTime\<close>, whether that session is idle or in use, and adds the new
  one, so the pool keeps its size.
\<close>

theorem createSession_amended:
  assumes ok: "pool_ok sm" and fresh: "uuid env \<notin> fst ` set (sessions sm)"
  shows "(length (sessions sm) < maxSessions sm \<longrightarrow>
            sessions (snd (createSession options env sm))
              = sessions sm @ [(uuid env, fst (createSession options env sm))]
            \<and> length (sessions (snd (createSession options env sm))) \<le> maxSessions sm)
       \<and> (maxSessions sm \<le> length (sessions sm)
            \<and> (\<exists>s\<in>snd ` set (sessions sm). startTime s < nowCleanup env) \<longrightarrow>
            (\<exists>victim. victim \<in> snd ` set (sessions sm)
               \<and> (\<forall>s\<in>snd ` set (sessions sm). startTime victim \<le> startTime s)
               \<and> sessions (snd (createSession options env sm))
                   = map_delete (sid victim) (sessions sm)
                       @ [(uuid env, fst (createSession options env sm))])
            \<and> length (sessions (snd (createSession options env sm))) = length (sessions sm))
       \<and> sid (fst (createSession options env sm)) = uuid env"
proof (intro conjI impI)
  assume lt: "length (sessions sm) < maxSessions sm"
  then show "sessions (snd (createSession options env sm))
              = sessions sm @ [(uuid env, fst (createSession options env sm))]"
    using fresh by (simp add: createSession_fields(1) map_set_fresh)
  then show "length (sessions (snd (createSession options env sm))) \<le> maxSessions sm"
    using lt by simp
next
  assume a: "maxSessions sm \<le> length (sessions sm)
            \<and> (\<exists>s\<in>snd ` set (sessions sm). startTime s < nowCleanup env)"
  from cleanup_victim[OF ok] a obtain v where
    v: "v \<in> snd ` set (sessions sm)" "sid v \<in> fst ` set (sessions sm)"
       "\<forall>s\<in>snd ` set (sessions sm). startTime v \<le> startTime s"
       "cleanupOldestSession (nowCleanup env) sm = sm\<lparr> sessions := map_delete (sid v) (sessions sm) \<rparr>"
    by blast
  have fresh': "uuid env \<notin> fst ` set (map_delete (sid v) (sessions sm))"
    using fresh by (simp add: keys_map_delete)
  have s: "sessions (snd (createSession options env sm))
      = map_delete (sid v) (sessions sm) @ [(uuid env, fst (createSession options env sm))]"
    using a fresh' by (simp add: createSession_fields(1) v(4) map_set_fresh)
  from v(1,3) s show "\<exists>victim. victim \<in> snd ` set (sessions sm)
               \<and> (\<forall>s\<in>snd ` set (sessions sm). startTime victim \<le> startTime s)
               \<and> sessions (snd (createSession options env sm))
                   = map_delete (sid victim) (sessions sm)
                       @ [(uuid env, fst (createSession options env sm))]"
    by blast
  from ok have "distinct (map fst (sessions sm))" by (simp add: pool_ok_def)
  from length_map_delete[OF this v(2)] s
  show "length (sessions (snd (createSession options env sm))) = length (sessions sm)"
    by simp
next
  show "sid (fst (createSession options env sm)) = uuid env" by (rule createSession_fields(2))
qed

text \<open>
  C3, as the claim states it, fails: in a pool with \<open>maxSessions = 1\<close> whose only session
  has a page open, so that no idle session exists, \<open>createSession\<close> does not block; it
  closes the session in use and returns with the new session in the pool.
\<close>

theorem createSession_evicts_in_use_counterexample:
  "map fst (sessions busy_pool) = [''s1''] \<and> maxSessions busy_pool = 1
   \<and> \<not> idle busy_session
   \<and> map_of (sessions busy_pool) ''s1'' = Some busy_session
   \<and> map fst (sessions (snd (createSession no_options second_call busy_pool))) = [''s2'']"
  by (simp add: busy_pool_def busy_session_def idle_def SessionManager_new_def plain_config_def
      createSession_def no_options_def second_call_def cleanupOldestSession_def oldest_step_pair
      closeSession_def map_delete_def map_set_def Let_def)

theorem createSession_amended_witness:
  "pool_ok busy_pool \<and> uuid second_call \<notin> fst ` set (sessions busy_pool)
   \<and> maxSessions busy_pool \<le> length (sessions busy_pool)
   \<and> (\<exists>s\<in>snd ` set (sessions busy_pool). startTime s < nowCleanup second_call)
   \<and> length (sessions (snd (createSession no_options second_call busy_pool)))
       = length (sessions busy_pool)"
proof -
  have ss: "sessions busy_pool = [(''s1'', busy_session)]" "maxSessions busy_pool = 1"
    by (simp_all add: busy_pool_def SessionManager_new_def)
  have h1: "pool_ok busy_pool" by (simp add: pool_ok_def ss busy_session_def)
  have h2: "uuid second_call \<notin> fst ` set (sessions busy_pool)"
    by (simp add: ss second_call_def)
  have h3: "maxSessions busy_pool \<le> length (sessions busy_pool)" by (simp add: ss)
  have h4: "\<exists>s\<in>snd ` set (sessions busy_pool). startTime s < nowCleanup second_call"
    by (simp add: ss busy_session_def second_call_def)
  from createSession_amended[OF h1 h2, of no_options] h3 h4
  have "length (sessions (snd (createSession no_options second_call busy_pool)))
       = length (sessions busy_pool)" by blast
  with h1 h2 h3 h4 show ?thesis by (intro conjI)
qed

text \<open>
  When no session started strictly before the clock value the cleanup reads, it closes
  nothing: a second \<open>createSession\<close> in the millisecond in which the only session of a pool
  with \<open>maxSessions = 1\<close> started leaves two sessions in the pool.
\<close>

theorem createSession_same_millisecond:
  "maxSessions busy_pool = 1
   \<and> map startTime (map snd (sessions busy_pool)) = [0]
   \<and> nowCleanup same_millisecond_call = 0
   \<and> map fst (sessions (snd (createSession no_options same_millisecond_call busy_pool)))
       = [''s1'', ''s2'']"
  by (simp add: busy_pool_def busy_session_def SessionManager_new_def plain_config_def
      createSession_def no_options_def same_millisecond_call_def cleanupOldestSession_def
      oldest_step_def map_set_def Let_def)


section \<open>Properties of the security test\<close>

lemma createSession_sid: "sid (fst (createSession options env sm)) = uuid env"
  by (simp add: createSession_def Let_def split: prod.splits option.splits)

lemma hasBlocks_iff:
  "hasBlocks ds \<longleftrightarrow> \<not> list_all (\<lambda>d. dtype d \<noteq> Block \<and> dtype d \<noteq> Captcha) ds"
  by (induction ds) (auto simp: hasBlocks_def blocking_def)

lemma attempt_Some:
  assumes "attempt sidv env i (sm, made, b) = Some (sm', made', b')"
  shows "made' = made @ attempt_calls sidv env i" "b' \<longleftrightarrow> b \<or> clean_attempt env i"
    "outcome env i \<noteq> PageFails"
  using assms
  by (auto simp: attempt_def attempt_calls_def clean_attempt_def hasBlocks_iff
      split: attempt_outcome.splits option.splits if_splits)

lemma loop_Some:
  "attempts_loop sidv env js (sm, made, b) = Some (sm', made', b') \<Longrightarrow>
     made' = made @ concat (map (attempt_calls sidv env) js)
     \<and> (b' \<longleftrightarrow> b \<or> (\<exists>i\<in>set js. clean_attempt env i))
     \<and> list_all (\<lambda>i. outcome env i \<noteq> PageFails) js"
proof (induction js arbitrary: sm made b)
  case Nil
  then show ?case by simp
next
  case (Cons i js)
  from Cons.prems obtain sm1 made1 b1 where
    a: "attempt sidv env i (sm, made, b) = Some (sm1, made1, b1)"
    and l: "attempts_loop sidv env js (sm1, made1, b1) = Some (sm', made', b')"
    by (auto split: option.splits)
  from attempt_Some[OF a] Cons.IH[OF l] show ?case by auto
qed

lemma created_Nil [simp]: "sessions_created [] = []" "pages_created [] = []"
  by (simp_all add: sessions_created_def pages_created_def)

lemma sessions_created_append [simp]:
  "sessions_created (xs @ ys) = sessions_created xs @ sessions_created ys"
  by (simp add: sessions_created_def)

lemma pages_created_append [simp]:
  "pages_created (xs @ ys) = pages_created xs @ pages_created ys"
  by (simp add: pages_created_def)

lemma sessions_created_attempt: "sessions_created (attempt_calls sidv env i) = []"
  by (cases "outcome env i")
     (simp_all add: sessions_created_def attempt_calls_def comp_def)

lemma pages_created_AddDetection: "pages_created (map (AddDetection s) ds) = []"
  by (induction ds) (simp_all add: pages_created_def)

lemma pages_created_attempt:
  "outcome env i \<noteq> PageFails \<Longrightarrow> pages_created (attempt_calls sidv env i) = [pageOf env i]"
  by (cases "outcome env i")
     (simp_all add: attempt_calls_def pages_created_AddDetection, simp_all add: pages_created_def)

lemma sessions_created_attempts:
  "sessions_created (concat (map (attempt_calls sidv env) js)) = []"
  by (induction js) (simp_all add: sessions_created_attempt)

lemma pages_created_attempts:
  "list_all (\<lambda>i. outcome env i \<noteq> PageFails) js \<Longrightarrow>
     pages_created (concat (map (attempt_calls sidv env) js)) = map (pageOf env) js"
  by (induction js) (simp_all add: pages_created_attempt)

lemma created_ends:
  "sessions_created [CreateSession s] = [s]"
  "sessions_created [GenerateReport s b, CloseSession s'] = []"
  "pages_created [CreateSession s] = []"
  "pages_created [GenerateReport s b, CloseSession s'] = []"
  by (simp_all add: sessions_created_def pages_created_def)

lemma testSecurity_Inr:
  assumes "testSecurity generateReport target options env found sm = Inr res"
  obtains sm2 made bypass session where
    "attempts_loop (uuid (createEnv env)) env [0..<passes (or_default (attempts options) 5)]
       (snd (createSession \<lparr> useProxy = useProxies options, specificProxy = None,
                             persistCookies = None \<rparr> (createEnv env) sm),
        [CreateSession (uuid (createEnv env))], False) = Some (sm2, made, bypass)"
    "report res = generateReport session target bypass"
    "calls res = made @ [GenerateReport (uuid (createEnv env)) bypass,
                         CloseSession (uuid (createEnv env))]"
proof -
  let ?cs = "createSession \<lparr> useProxy = useProxies options, specificProxy = None,
                             persistCookies = None \<rparr> (createEnv env) sm"
  let ?n = "passes (or_default (attempts options) 5)"
  have s: "sid (fst ?cs) = uuid (createEnv env)" by (rule createSession_sid)
  obtain session sm1 where cs: "?cs = (session, sm1)" by (cases ?cs)
  with s have s': "sid session = uuid (createEnv env)" by simp
  let ?loop = "attempts_loop (sid session) env [0..<?n]
                 (sm1, [CreateSession (sid session)], False)"
  from assms have e: "(case ?loop of
           None \<Rightarrow> Inl Thrown
         | Some (sm2, made, bypass) \<Rightarrow>
             (let current = (case map_of (sessions sm2) (sid session) of
                               None \<Rightarrow> session | Some s \<Rightarrow> s);
                  rep = generateReport current target bypass
              in Inr \<lparr> report = rep,
                       managerAfter = closeSession (sid session) sm2,
                       calls = made @ [GenerateReport (sid session) bypass,
                                      CloseSession (sid session)],
                       vulnerabilitiesFound = found + length (vulnerabilities rep) \<rparr>)) = Inr res"
    by (simp add: testSecurity_def Let_def cs)
  then obtain sm2 made bypass where l: "?loop = Some (sm2, made, bypass)"
    by (cases ?loop) auto
  let ?cur = "case map_of (sessions sm2) (sid session) of
                               None \<Rightarrow> session | Some s \<Rightarrow> s"
  from e l have res: "res = \<lparr> report = generateReport ?cur target bypass,
                       managerAfter = closeSession (sid session) sm2,
                       calls = made @ [GenerateReport (sid session) bypass,
                                      CloseSession (sid session)],
                       vulnerabilitiesFound =
                         found + length (vulnerabilities (generateReport ?cur target bypass)) \<rparr>"
    by (simp add: Let_def)
  show ?thesis
  proof (rule that[of sm2 made bypass ?cur])
    show "attempts_loop (uuid (createEnv env)) env [0..<?n]
       (snd ?cs, [CreateSession (uuid (createEnv env))], False) = Some (sm2, made, bypass)"
      using l by (simp add: cs s')
    show "report res = generateReport ?cur target bypass" by (simp add: res)
    show "calls res = made @ [GenerateReport (uuid (createEnv env)) bypass,
                         CloseSession (uuid (createEnv env))]" by (simp add: res s')
  qed
qed

lemma upt_3: "[0..<3::nat] = [0, 1, 2]" by code_simp
lemma upt_2: "[0..<2::nat] = [0, 1]" by code_simp
lemma passes_num: "passes 3 = 3" "passes 2 = 2" by (simp_all add: passes_def)


lemma map_set_keys: "fst ` set (map_set k v m) = insert k (fst ` set m)"
  by (auto simp: map_set_def image_iff split: if_splits) force+

lemma map_of_key: "k \<in> fst ` set m \<Longrightarrow> \<exists>v. map_of m k = Some v"
  by (cases "map_of m k") (auto simp: map_of_eq_None_iff)

lemma createPage_Some:
  assumes "k \<in> fst ` set (sessions sm)"
  shows "\<exists>sm'. createPage k p sm = Some sm' \<and> k \<in> fst ` set (sessions sm')"
proof -
  from map_of_key[OF assms] obtain s where "map_of (sessions sm) k = Some s" by blast
  then show ?thesis by (simp add: createPage_def map_set_keys)
qed

lemma addDetection_keys:
  "fst ` set (sessions (fst (addDetection k d sm))) = fst ` set (sessions sm)"
proof (cases "map_of (sessions sm) k")
  case None
  then show ?thesis by (simp add: addDetection_def)
next
  case (Some s)
  then have "k \<in> fst ` set (sessions sm)" by (force dest: map_of_SomeD)
  then have "insert k (fst ` set (sessions sm)) = fst ` set (sessions sm)" by auto
  with Some show ?thesis
    by (auto simp: addDetection_def Let_def map_set_keys split: option.splits prod.splits)
qed

lemma addDetections_keys:
  "fst ` set (sessions (addDetections k ds sm)) = fst ` set (sessions sm)"
  unfolding addDetections_def
  by (induction ds arbitrary: sm) (simp_all add: addDetection_keys)

lemma attempt_returns:
  assumes "k \<in> fst ` set (sessions sm)" "outcome env i \<noteq> PageFails"
  shows "\<exists>sm' made' b'. attempt k env i (sm, made, b) = Some (sm', made', b')
           \<and> k \<in> fst ` set (sessions sm')"
proof -
  from createPage_Some[OF assms(1)] obtain sm1 where
    c: "createPage k (pageOf env i) sm = Some sm1" "k \<in> fst ` set (sessions sm1)" by blast
  show ?thesis
    using assms(2) c by (cases "outcome env i") (simp_all add: attempt_def addDetections_keys)
qed

lemma loop_returns:
  assumes "k \<in> fst ` set (sessions sm)" "list_all (\<lambda>i. outcome env i \<noteq> PageFails) js"
  shows "\<exists>st. attempts_loop k env js (sm, made, b) = Some st"
  using assms
proof (induction js arbitrary: sm made b)
  case Nil
  then show ?case by simp
next
  case (Cons i js)
  from Cons.prems(2) have o: "outcome env i \<noteq> PageFails"
    and r: "list_all (\<lambda>i. outcome env i \<noteq> PageFails) js" by simp_all
  from attempt_returns[OF Cons.prems(1) o] obtain sm' made' b' where
    a: "attempt k env i (sm, made, b) = Some (sm', made', b')" "k \<in> fst ` set (sessions sm')"
    by blast
  from Cons.IH[OF a(2) r] a(1) show ?case by simp
qed

lemma createSession_key:
  "uuid env \<in> fst ` set (sessions (snd (createSession options env sm)))"
  by (simp add: createSession_def Let_def map_set_keys split: prod.splits option.splits)

lemma testSecurity_returns:
  assumes "list_all (\<lambda>i. outcome env i \<noteq> PageFails) [0..<passes (or_default (attempts options) 5)]"
  shows "\<exists>res. testSecurity generateReport target options env found sm = Inr res"
proof -
  let ?cs = "createSession \<lparr> useProxy = useProxies options, specificProxy = None,
                             persistCookies = None \<rparr> (createEnv env) sm"
  obtain session sm1 where cs: "?cs = (session, sm1)" by (cases ?cs)
  have s: "sid session = uuid (createEnv env)" using createSession_sid[of _ "createEnv env" sm] cs
    by (metis fst_conv)
  have k: "sid session \<in> fst ` set (sessions sm1)"
    using createSession_key[of "createEnv env" _ sm] cs s by (metis snd_conv)
  from loop_returns[OF k assms] obtain st where
    "attempts_loop (sid session) env [0..<passes (or_default (attempts options) 5)]
       (sm1, [CreateSession (sid session)], False) = Some st" by blast
  then show ?thesis
    by (cases st) (simp add: testSecurity_def Let_def cs)
qed


lemma mixed_no_page_failure:
  "list_all (\<lambda>i. outcome mixed_run i \<noteq> PageFails)
     [0..<passes (or_default (attempts three_attempts) 5)]"
  by (simp add: three_attempts_def or_default_def passes_num upt_3 mixed_run_def)
















text \<open>
  C7, amended. \<open>testSecurity\<close> creates one session before the loop, runs its attempts one
  after another in that session, opening a new page for each attempt and closing it before
  the next, and closes the session after the report is generated.
\<close>

theorem testSecurity_single_session:
  assumes r: "testSecurity generateReport target options env found sm = Inr res"
  shows "calls res =
           [CreateSession (uuid (createEnv env))]
           @ concat (map (attempt_calls (uuid (createEnv env)) env)
                       [0..<passes (or_default (attempts options) 5)])
           @ [GenerateReport (uuid (createEnv env))
                (\<exists>i < passes (or_default (attempts options) 5). clean_attempt env i),
              CloseSession (uuid (createEnv env))]
       \<and> sessions_created (calls res) = [uuid (createEnv env)]
       \<and> pages_created (calls res)
           = map (pageOf env) [0..<passes (or_default (attempts options) 5)]"
proof -
  let ?n = "passes (or_default (attempts options) 5)" and ?s = "uuid (createEnv env)"
  from r obtain sm2 made bypass session where
    l: "attempts_loop ?s env [0..<?n]
       (snd (createSession \<lparr> useProxy = useProxies options, specificProxy = None,
                             persistCookies = None \<rparr> (createEnv env) sm),
        [CreateSession ?s], False) = Some (sm2, made, bypass)"
    and c: "calls res = made @ [GenerateReport ?s bypass, CloseSession ?s]"
    by (rule testSecurity_Inr)
  from loop_Some[OF l]
  have m: "made = [CreateSession ?s] @ concat (map (attempt_calls ?s env) [0..<?n])"
    and b: "bypass \<longleftrightarrow> (\<exists>i < ?n. clean_attempt env i)"
    and ok: "list_all (\<lambda>i. outcome env i \<noteq> PageFails) [0..<?n]"
    by auto
  have 1: "calls res = [CreateSession ?s] @ concat (map (attempt_calls ?s env) [0..<?n])
           @ [GenerateReport ?s (\<exists>i < ?n. clean_attempt env i), CloseSession ?s]"
    by (simp add: c m b)
  have 2: "sessions_created (calls res) = [?s]"
    by (simp only: 1 sessions_created_append sessions_created_attempts created_ends) simp
  have 3: "pages_created (calls res) = map (pageOf env) [0..<?n]"
    by (simp only: 1 pages_created_append pages_created_attempts[OF ok] created_ends) simp
  from 1 2 3 show ?thesis by (intro conjI)
qed


theorem testSecurity_single_session_witness:
  "\<not> isl (testSecurity copying_reporter ''t'' three_attempts mixed_run 0 empty_pool)
   \<and> sessions_created (calls (projr (testSecurity copying_reporter ''t'' three_attempts mixed_run 0 empty_pool)))
       = [''s2'']
   \<and> pages_created (calls (projr (testSecurity copying_reporter ''t'' three_attempts mixed_run 0 empty_pool)))
       = [10, 11, 12]"
proof -
  from testSecurity_returns[OF mixed_no_page_failure] obtain res where
    r: "testSecurity copying_reporter ''t'' three_attempts mixed_run 0 empty_pool = Inr res"
    by blast
  from testSecurity_single_session[OF r]
  have "sessions_created (calls res) = [uuid (createEnv mixed_run)]"
    "pages_created (calls res) = map (pageOf mixed_run) [0..<passes (or_default (attempts three_attempts) 5)]"
    by blast+
  then have "sessions_created (calls res) = [''s2'']" "pages_created (calls res) = [10, 11, 12]"
    by (simp_all add: mixed_run_def second_call_def three_attempts_def or_default_def passes_num upt_3)
  with r show ?thesis by simp
qed


text \<open>
  C7, as the claim states it, fails: a run of three attempts creates one session, not three.
\<close>

theorem testSecurity_one_session_counterexample:
  "passes (or_default (attempts three_attempts) 5) = 3
   \<and> \<not> isl (testSecurity copying_reporter ''t'' three_attempts mixed_run 0 empty_pool)
   \<and> length (sessions_created (calls (projr (testSecurity copying_reporter ''t'' three_attempts mixed_run 0 empty_pool)))) = 1"
proof -
  from testSecurity_returns[OF mixed_no_page_failure] obtain res where
    r: "testSecurity copying_reporter ''t'' three_attempts mixed_run 0 empty_pool = Inr res"
    by blast
  from r obtain sm2 made bypass session where
    l: "attempts_loop (uuid (createEnv mixed_run)) mixed_run [0..<passes (or_default (attempts three_attempts) 5)]
       (snd (createSession \<lparr> useProxy = useProxies three_attempts, specificProxy = None,
                             persistCookies = None \<rparr> (createEnv mixed_run) empty_pool),
        [CreateSession (uuid (createEnv mixed_run))], False) = Some (sm2, made, bypass)"
    and c: "calls res = made @ [GenerateReport (uuid (createEnv mixed_run)) bypass,
                         CloseSession (uuid (createEnv mixed_run))]"
    by (rule testSecurity_Inr)
  from loop_Some[OF l] have "made = [CreateSession (uuid (createEnv mixed_run))]
      @ concat (map (attempt_calls (uuid (createEnv mixed_run)) mixed_run) [0..<passes (or_default (attempts three_attempts) 5)])"
    by simp
  then have "sessions_created (calls res) = [uuid (createEnv mixed_run)]"
    by (simp only: c sessions_created_append sessions_created_attempts created_ends) simp
  then have "length (sessions_created (calls res)) = 1" by simp
  moreover have "passes (or_default (attempts three_attempts) 5) = 3"
    by (simp add: three_attempts_def or_default_def passes_num)
  ultimately show ?thesis using r by simp
qed


section \<open>Properties of the stress test\<close>

lemma request_step_total:
  "request_step out c = Some c' \<Longrightarrow> totalRequests c' = totalRequests c + counted out"
  by (cases out) (auto simp: request_step_def split: if_splits)

lemma worker_total:
  "worker env w js c = Some c' \<Longrightarrow>
     totalRequests c' = totalRequests c + sum_list (map (\<lambda>j. counted (request env w j)) js)"
proof (induction js arbitrary: c)
  case Nil
  then show ?case by simp
next
  case (Cons j js)
  from Cons.prems obtain c1 where s: "request_step (request env w j) c = Some c1"
    and r: "worker env w js c1 = Some c'" by (auto split: option.splits)
  from request_step_total[OF s] Cons.IH[OF r] show ?case by simp
qed

lemma workers_total:
  "workers env ws js c = Some c' \<Longrightarrow>
     totalRequests c' = totalRequests c
       + sum_list (map (\<lambda>w. sum_list (map (\<lambda>j. counted (request env w j)) js)) ws)"
proof (induction ws arbitrary: c)
  case Nil
  then show ?case by simp
next
  case (Cons w ws)
  from Cons.prems obtain c1 where s: "worker env w js c = Some c1"
    and r: "workers env ws js c1 = Some c'" by (auto split: option.splits)
  from worker_total[OF s] Cons.IH[OF r] show ?case by simp
qed

lemma request_step_returns:
  "out \<noteq> PageThrows \<Longrightarrow> \<exists>c'. request_step out c = Some c'"
  by (cases out) (simp_all add: request_step_def)

lemma worker_returns:
  "list_all (\<lambda>j. request env w j \<noteq> PageThrows) js \<Longrightarrow> \<exists>c'. worker env w js c = Some c'"
proof (induction js arbitrary: c)
  case Nil
  then show ?case by simp
next
  case (Cons j js)
  from Cons.prems have "request env w j \<noteq> PageThrows" by simp
  from request_step_returns[OF this] obtain c1 where
    "request_step (request env w j) c = Some c1" by blast
  moreover from Cons.prems have "list_all (\<lambda>j. request env w j \<noteq> PageThrows) js" by simp
  from Cons.IH[OF this] obtain c' where "worker env w js c1 = Some c'" by blast
  ultimately show ?case by simp
qed

lemma workers_returns:
  "list_all (\<lambda>w. list_all (\<lambda>j. request env w j \<noteq> PageThrows) js) ws
     \<Longrightarrow> \<exists>c'. workers env ws js c = Some c'"
proof (induction ws arbitrary: c)
  case Nil
  then show ?case by simp
next
  case (Cons w ws)
  from Cons.prems have "list_all (\<lambda>j. request env w j \<noteq> PageThrows) js" by simp
  from worker_returns[OF this] obtain c1 where "worker env w js c = Some c1" by blast
  moreover from Cons.prems
  have "list_all (\<lambda>w. list_all (\<lambda>j. request env w j \<noteq> PageThrows) js) ws" by simp
  from Cons.IH[OF this] obtain c' where "workers env ws js c1 = Some c'" by blast
  ultimately show ?case by simp
qed

text \<open>
  C9. \<open>stressTest\<close> returns whenever no worker fails to open or close a page, and the
  \<open>averageResponseTime\<close> it returns is the difference of the clock values read at the end
  and at the start of the whole run divided by \<open>totalRequests\<close>, the number of requests
  counted over all workers; no latency of a single request enters it.
\<close>

theorem stressTest_average:
  "(list_all (\<lambda>w. list_all (\<lambda>j. request env w j \<noteq> PageThrows)
                      [0..<passes (or_default (requestsPerSession options) 10)])
      [0..<passes (or_default (concurrentSessions options) 5)]
    \<longrightarrow> (\<exists>r. stressTest options env = Inr r))
   \<and> (\<forall>r. stressTest options env = Inr r \<longrightarrow>
        averageResponseTime r
          = js_div (real_of_int (clockEnd env - clockStart env)) (real (resultTotalRequests r))
        \<and> (0 < resultTotalRequests r \<longrightarrow>
             averageResponseTime r
               = Finite (real_of_int (clockEnd env - clockStart env)
                         / real (resultTotalRequests r)))
        \<and> resultTotalRequests r
            = sum_list (map (\<lambda>w. sum_list (map (\<lambda>j. counted (request env w j))
                                    [0..<passes (or_default (requestsPerSession options) 10)]))
                          [0..<passes (or_default (concurrentSessions options) 5)]))"
proof (intro conjI impI allI)
  assume "list_all (\<lambda>w. list_all (\<lambda>j. request env w j \<noteq> PageThrows)
                      [0..<passes (or_default (requestsPerSession options) 10)])
      [0..<passes (or_default (concurrentSessions options) 5)]"
  from workers_returns[OF this] obtain c where
    "workers env [0..<passes (or_default (concurrentSessions options) 5)]
          [0..<passes (or_default (requestsPerSession options) 10)]
          \<lparr> totalRequests = 0, successfulRequests = 0, totalDetections = 0 \<rparr> = Some c"
    by blast
  then show "\<exists>r. stressTest options env = Inr r"
    by (simp add: stressTest_def Let_def)
next
  fix r
  assume "stressTest options env = Inr r"
  then obtain c where
    w: "workers env [0..<passes (or_default (concurrentSessions options) 5)]
          [0..<passes (or_default (requestsPerSession options) 10)]
          \<lparr> totalRequests = 0, successfulRequests = 0, totalDetections = 0 \<rparr> = Some c"
    and a: "averageResponseTime r
           = js_div (real_of_int (clockEnd env - clockStart env)) (real (totalRequests c))"
    and t: "resultTotalRequests r = totalRequests c"
    by (auto simp: stressTest_def Let_def split: option.splits)
  from a t show "averageResponseTime r
          = js_div (real_of_int (clockEnd env - clockStart env)) (real (resultTotalRequests r))"
    by simp
  then show "averageResponseTime r
               = Finite (real_of_int (clockEnd env - clockStart env)
                         / real (resultTotalRequests r))"
    if "0 < resultTotalRequests r"
    using that by (simp add: js_div_def)
  from workers_total[OF w] t
  show "resultTotalRequests r
            = sum_list (map (\<lambda>w. sum_list (map (\<lambda>j. counted (request env w j))
                                    [0..<passes (or_default (requestsPerSession options) 10)]))
                          [0..<passes (or_default (concurrentSessions options) 5)])"
    by simp
qed

lemma stress_run:
  "stressTest two_by_two nine_seconds
     = Inr \<lparr> resultTotalRequests = 4, resultSuccessfulRequests = 4,
             resultDetectionRate = Finite 0, averageResponseTime = Finite 2250 \<rparr>"
  by (simp add: stressTest_def two_by_two_def nine_seconds_def or_default_def passes_num upt_2
      request_step_def js_div_def Let_def)

theorem stressTest_average_witness:
  "stressTest two_by_two nine_seconds
     = Inr \<lparr> resultTotalRequests = 4, resultSuccessfulRequests = 4,
             resultDetectionRate = Finite 0, averageResponseTime = Finite 2250 \<rparr>
   \<and> Finite 2250 = js_div (real_of_int (clockEnd nine_seconds - clockStart nine_seconds)) (real 4)"
  using stressTest_average[of nine_seconds two_by_two] stress_run by simp

end
